theory Spec2Isabelle
  imports Complex_Main "HOL-Library.AList"
begin

section \<open>The catalogue query engine of \<^verbatim>\<open>server.js\<close>\<close>

text \<open>
  The development embeds the query logic of \<^verbatim>\<open>server.js\<close> (the first of the two
  variants the file holds, the one with generic filters and sorting): the path helpers
  \<^verbatim>\<open>getByPath\<close>, \<^verbatim>\<open>norm\<close>, \<^verbatim>\<open>setByPath\<close>, the projection \<^verbatim>\<open>prepareCharacter\<close>, the
  \<^verbatim>\<open>/races\<close> handler and the \<^verbatim>\<open>/characters\<close> handler.

  Conventions of the model.
  \<^item> A string is a list of code units, restricted to the 8-bit range (Latin-1).
  \<^item> A record of the collection is a JSON document. Numbers inside documents are integers
    (identifiers and power statistics); the result of a numeric coercion is a \<open>jsnum\<close>,
    which keeps finite values exact (IEEE rounding is not modelled) and has the two
    infinities and NaN.
  \<^item> Objects are association lists of their own properties; members inherited from the
    built-in prototypes (methods, \<^verbatim>\<open>constructor\<close>, \<^verbatim>\<open>__proto__\<close>) are not modelled, and the
    round trip of \<^verbatim>\<open>setByPath\<close> and \<^verbatim>\<open>getByPath\<close> is stated for paths without the key
    \<^verbatim>\<open>__proto__\<close>. Values are trees: two references to one object are two copies.
  \<^item> Query parameters are text, as the HTTP layer delivers them for a key given once.
  \<^item> \<^verbatim>\<open>localeCompare\<close> with \<^verbatim>\<open>sensitivity: 'base'\<close> depends on the collation tables of the
    runtime. It is a parameter \<open>lc\<close> of every definition that sorts; its result is
    negative, zero or positive.
\<close>

subsection \<open>Values\<close>

datatype jsval =
    JUndef
  | JNull
  | JBool bool
  | JNum int
  | JStr string
  | JArr "jsval list" "(string \<times> jsval) list"
  | JObj "(string \<times> jsval) list"

text \<open>
  \<open>JArr xs ps\<close> is an array with elements \<open>xs\<close> and further named properties \<open>ps\<close>
  (empty for every array read from JSON; \<^verbatim>\<open>setByPath\<close> can add some).
\<close>

datatype jsnum = NaN | NInf | Fin rat | PInf

datatype error = TypeError | RangeError

definition is_nullish :: "jsval \<Rightarrow> bool" where
  "is_nullish v = (v = JUndef \<or> v = JNull)"

text \<open>\<^verbatim>\<open>typeof v === 'object' && v !== null\<close>\<close>

fun is_object :: "jsval \<Rightarrow> bool" where
  "is_object (JObj _) = True"
| "is_object (JArr _ _) = True"
| "is_object _ = False"

text \<open>\<^verbatim>\<open>Array.isArray\<close>\<close>

fun isArray :: "jsval \<Rightarrow> bool" where
  "isArray (JArr _ _) = True"
| "isArray _ = False"

fun elements :: "jsval \<Rightarrow> jsval list" where
  "elements (JArr xs _) = xs"
| "elements _ = []"

text \<open>Truthiness (\<^verbatim>\<open>Boolean(v)\<close>, \<^verbatim>\<open>!v\<close>, \<^verbatim>\<open>a || b\<close>).\<close>

fun truthy :: "jsval \<Rightarrow> bool" where
  "truthy JUndef = False"
| "truthy JNull = False"
| "truthy (JBool b) = b"
| "truthy (JNum n) = (n \<noteq> 0)"
| "truthy (JStr s) = (s \<noteq> [])"
| "truthy (JArr _ _) = True"
| "truthy (JObj _) = True"

subsection \<open>Strings\<close>

definition code_unit :: "char \<Rightarrow> nat" where
  "code_unit c = of_char c"

text \<open>White space and line terminators of the 8-bit range, as \<^verbatim>\<open>trim\<close> strips them.\<close>

definition is_space :: "char \<Rightarrow> bool" where
  "is_space c = (code_unit c \<in> {9, 10, 11, 12, 13, 32, 160})"

definition js_trim :: "string \<Rightarrow> string" where
  "js_trim s = rev (dropWhile is_space (rev (dropWhile is_space s)))"

definition lower_char :: "char \<Rightarrow> char" where
  "lower_char c =
     (if (65 \<le> code_unit c \<and> code_unit c \<le> 90) \<or> (192 \<le> code_unit c \<and> code_unit c \<le> 222 \<and> code_unit c \<noteq> 215)
      then char_of (code_unit c + 32) else c)"

definition toLowerCase :: "string \<Rightarrow> string" where
  "toLowerCase s = map lower_char s"

text \<open>\<^verbatim>\<open>s.split(c)\<close> for a separator of one code unit: never the empty list.\<close>

fun js_split :: "char \<Rightarrow> string \<Rightarrow> string list" where
  "js_split c [] = [[]]"
| "js_split c (x # xs) =
     (if x = c then [] # js_split c xs
      else (case js_split c xs of [] \<Rightarrow> [[x]] | p # ps \<Rightarrow> (x # p) # ps))"

fun starts_with :: "string \<Rightarrow> string \<Rightarrow> bool" where
  "starts_with [] s = True"
| "starts_with (p # ps) [] = False"
| "starts_with (p # ps) (x # xs) = (p = x \<and> starts_with ps xs)"

text \<open>\<^verbatim>\<open>hay.includes(needle)\<close> on strings: \<open>needle\<close> occurs in \<open>hay\<close>.\<close>

fun str_includes :: "string \<Rightarrow> string \<Rightarrow> bool" where
  "str_includes [] needle = (needle = [])"
| "str_includes (x # xs) needle = (starts_with needle (x # xs) \<or> str_includes xs needle)"

fun js_join :: "string \<Rightarrow> string list \<Rightarrow> string" where
  "js_join sep [] = []"
| "js_join sep [s] = s"
| "js_join sep (s # t # ts) = s @ sep @ js_join sep (t # ts)"

subsection \<open>Decimal numerals\<close>

definition is_digit :: "char \<Rightarrow> bool" where
  "is_digit c = (48 \<le> code_unit c \<and> code_unit c \<le> 57)"

definition digit_val :: "char \<Rightarrow> nat" where
  "digit_val c = code_unit c - 48"

definition digits_val :: "string \<Rightarrow> nat" where
  "digits_val s = foldl (\<lambda>n c. 10 * n + digit_val c) 0 s"

definition digit_char :: "nat \<Rightarrow> char" where
  "digit_char d = char_of (48 + d)"

fun nat_digits :: "nat \<Rightarrow> string" where
  "nat_digits n =
     (if n < 10 then [digit_char n] else nat_digits (n div 10) @ [digit_char (n mod 10)])"

declare nat_digits.simps [simp del]

definition int_digits :: "int \<Rightarrow> string" where
  "int_digits i = (if i < 0 then CHR ''-'' # nat_digits (nat (- i)) else nat_digits (nat i))"

subsection \<open>Numbers\<close>

text \<open>
  A value beyond the range of the doubles becomes an infinity: the largest double is
  \<open>2 ^ 1024 - 2 ^ 971\<close>, and from \<open>2 ^ 1024 - 2 ^ 970\<close> on rounding gives \<^verbatim>\<open>Infinity\<close>.
\<close>

definition to_number_range :: "rat \<Rightarrow> jsnum" where
  "to_number_range r =
     (if 2 ^ 1024 - 2 ^ 970 \<le> r then PInf
      else if r \<le> - (2 ^ 1024 - 2 ^ 970) then NInf
      else Fin r)"

definition num_neg :: "jsnum \<Rightarrow> jsnum" where
  "num_neg a = (case a of NaN \<Rightarrow> NaN | NInf \<Rightarrow> PInf | PInf \<Rightarrow> NInf | Fin x \<Rightarrow> Fin (- x))"

fun num_add :: "jsnum \<Rightarrow> jsnum \<Rightarrow> jsnum" where
  "num_add NaN _ = NaN"
| "num_add _ NaN = NaN"
| "num_add PInf NInf = NaN"
| "num_add NInf PInf = NaN"
| "num_add PInf _ = PInf"
| "num_add _ PInf = PInf"
| "num_add NInf _ = NInf"
| "num_add _ NInf = NInf"
| "num_add (Fin x) (Fin y) = to_number_range (x + y)"

definition num_sub :: "jsnum \<Rightarrow> jsnum \<Rightarrow> jsnum" where
  "num_sub a b = num_add a (num_neg b)"

definition inf_of_sign :: "bool \<Rightarrow> jsnum" where
  "inf_of_sign positive = (if positive then PInf else NInf)"

fun num_mul :: "jsnum \<Rightarrow> jsnum \<Rightarrow> jsnum" where
  "num_mul NaN _ = NaN"
| "num_mul _ NaN = NaN"
| "num_mul (Fin x) (Fin y) = to_number_range (x * y)"
| "num_mul (Fin x) b = (if x = 0 then NaN else inf_of_sign ((0 < x) = (b = PInf)))"
| "num_mul a (Fin y) = (if y = 0 then NaN else inf_of_sign ((0 < y) = (a = PInf)))"
| "num_mul a b = inf_of_sign (a = b)"

text \<open>
  Division. The sign of a zero is not modelled, so a finite value divided by zero is given
  the sign of the dividend; the handler divides by the page size only, which is never zero.
\<close>

fun num_div :: "jsnum \<Rightarrow> jsnum \<Rightarrow> jsnum" where
  "num_div NaN _ = NaN"
| "num_div _ NaN = NaN"
| "num_div (Fin x) (Fin y) =
     (if y = 0 then (if x = 0 then NaN else inf_of_sign (0 < x)) else to_number_range (x / y))"
| "num_div (Fin x) b = Fin 0"
| "num_div a (Fin y) = inf_of_sign ((0 \<le> y) = (a = PInf))"
| "num_div a b = NaN"

definition num_ceil :: "jsnum \<Rightarrow> jsnum" where
  "num_ceil a = (case a of Fin x \<Rightarrow> Fin (of_int \<lceil>x\<rceil>) | _ \<Rightarrow> a)"

fun num_le :: "jsnum \<Rightarrow> jsnum \<Rightarrow> bool" where
  "num_le NaN _ = False"
| "num_le _ NaN = False"
| "num_le NInf _ = True"
| "num_le _ PInf = True"
| "num_le (Fin x) (Fin y) = (x \<le> y)"
| "num_le _ _ = False"

text \<open>\<^verbatim>\<open>Math.max\<close> and \<^verbatim>\<open>Math.min\<close> of two numbers.\<close>

definition num_max :: "jsnum \<Rightarrow> jsnum \<Rightarrow> jsnum" where
  "num_max a b = (if a = NaN \<or> b = NaN then NaN else if num_le a b then b else a)"

definition num_min :: "jsnum \<Rightarrow> jsnum \<Rightarrow> jsnum" where
  "num_min a b = (if a = NaN \<or> b = NaN then NaN else if num_le a b then a else b)"

text \<open>Truthiness of a number: \<^verbatim>\<open>x || d\<close> takes \<open>d\<close> for NaN and for zero.\<close>

definition num_or :: "jsnum \<Rightarrow> jsnum \<Rightarrow> jsnum" where
  "num_or x d = (if x = NaN \<or> x = Fin 0 then d else x)"

definition of_nat_num :: "nat \<Rightarrow> jsnum" where
  "of_nat_num n = Fin (of_nat n)"

subsection \<open>Conversions\<close>

text \<open>\<^verbatim>\<open>String(v)\<close>\<close>

fun js_to_string :: "jsval \<Rightarrow> string" where
  "js_to_string JUndef = ''undefined''"
| "js_to_string JNull = ''null''"
| "js_to_string (JBool b) = (if b then ''true'' else ''false'')"
| "js_to_string (JNum n) = int_digits n"
| "js_to_string (JStr s) = s"
| "js_to_string (JArr xs ps) =
     js_join '','' (map (\<lambda>x. if x = JUndef \<or> x = JNull then [] else js_to_string x) xs)"
| "js_to_string (JObj kvs) = ''[object Object]''"

text \<open>
  The numeric value of a string (\<^verbatim>\<open>Number(s)\<close>): white space is trimmed, the empty string is
  0, then a binary, octal or hexadecimal literal without sign, or an optionally signed
  \<^verbatim>\<open>Infinity\<close> or decimal literal with optional fraction and exponent; anything else is NaN.
\<close>

definition radix_digit :: "char \<Rightarrow> nat option" where
  "radix_digit c =
     (if 48 \<le> code_unit c \<and> code_unit c \<le> 57 then Some (code_unit c - 48)
      else if 97 \<le> code_unit c \<and> code_unit c \<le> 102 then Some (code_unit c - 87)
      else if 65 \<le> code_unit c \<and> code_unit c \<le> 70 then Some (code_unit c - 55)
      else None)"

definition radix_literal :: "nat \<Rightarrow> string \<Rightarrow> jsnum" where
  "radix_literal b s =
     (if s \<noteq> [] \<and> list_all (\<lambda>c. case radix_digit c of None \<Rightarrow> False | Some d \<Rightarrow> d < b) s
      then to_number_range (of_nat (foldl (\<lambda>n c. b * n + the (radix_digit c)) 0 s))
      else NaN)"

text \<open>The exponent part: empty, or \<^verbatim>\<open>e\<close> or \<^verbatim>\<open>E\<close>, an optional sign and at least one digit.\<close>

definition exponent_part :: "string \<Rightarrow> int option" where
  "exponent_part s =
     (case s of
        [] \<Rightarrow> Some 0
      | c # r \<Rightarrow>
          if c = CHR ''e'' \<or> c = CHR ''E'' then
            (let neg = (r \<noteq> [] \<and> hd r = CHR ''-'');
                 ds = (if r \<noteq> [] \<and> (hd r = CHR ''-'' \<or> hd r = CHR ''+'') then tl r else r)
             in if ds \<noteq> [] \<and> list_all is_digit ds
                then Some (if neg then - int (digits_val ds) else int (digits_val ds))
                else None)
          else None)"

definition decimal_literal :: "string \<Rightarrow> rat option" where
  "decimal_literal s =
     (let ip = takeWhile is_digit s;
          r1 = dropWhile is_digit s;
          dot = (r1 \<noteq> [] \<and> hd r1 = CHR ''.'');
          fp = (if dot then takeWhile is_digit (tl r1) else []);
          r2 = (if dot then dropWhile is_digit (tl r1) else r1)
      in if ip = [] \<and> fp = [] then None
         else (case exponent_part r2 of
                 None \<Rightarrow> None
               | Some e \<Rightarrow>
                   Some (of_nat (digits_val (ip @ fp)) * 10 powi (e - int (length fp)))))"

definition unsigned_literal :: "string \<Rightarrow> jsnum" where
  "unsigned_literal s =
     (if s = ''Infinity'' then PInf
      else (case decimal_literal s of None \<Rightarrow> NaN | Some r \<Rightarrow> to_number_range r))"

definition string_to_number :: "string \<Rightarrow> jsnum" where
  "string_to_number s =
     (let t = js_trim s in
      if t = [] then Fin 0
      else if starts_with ''0x'' t \<or> starts_with ''0X'' t then radix_literal 16 (drop 2 t)
      else if starts_with ''0o'' t \<or> starts_with ''0O'' t then radix_literal 8 (drop 2 t)
      else if starts_with ''0b'' t \<or> starts_with ''0B'' t then radix_literal 2 (drop 2 t)
      else if hd t = CHR ''-'' then num_neg (unsigned_literal (tl t))
      else if hd t = CHR ''+'' then unsigned_literal (tl t)
      else unsigned_literal t)"

text \<open>\<^verbatim>\<open>Number(v)\<close>; an array is converted through its string.\<close>

fun js_to_number :: "jsval \<Rightarrow> jsnum" where
  "js_to_number JUndef = NaN"
| "js_to_number JNull = Fin 0"
| "js_to_number (JBool b) = (if b then Fin 1 else Fin 0)"
| "js_to_number (JNum n) = Fin (of_int n)"
| "js_to_number (JStr s) = string_to_number s"
| "js_to_number (JArr xs ps) = string_to_number (js_to_string (JArr xs ps))"
| "js_to_number (JObj kvs) = NaN"

text \<open>
  \<^verbatim>\<open>parseInt(s, 10)\<close>: leading white space, an optional sign, then the longest run of
  decimal digits; NaN when there is none.
\<close>

definition parseInt :: "string \<Rightarrow> jsnum" where
  "parseInt s =
     (let t = dropWhile is_space s;
          neg = (t \<noteq> [] \<and> hd t = CHR ''-'');
          u = (if t \<noteq> [] \<and> (hd t = CHR ''-'' \<or> hd t = CHR ''+'') then tl t else t);
          ds = takeWhile is_digit u
      in if ds = [] then NaN
         else if neg then num_neg (to_number_range (of_nat (digits_val ds)))
         else to_number_range (of_nat (digits_val ds)))"

subsection \<open>Property access\<close>

text \<open>
  An array index is the canonical decimal form of an integer below \<open>2 ^ 32 - 1\<close>: digits
  only, no leading zero.
\<close>

definition array_index :: "string \<Rightarrow> nat option" where
  "array_index k =
     (if k \<noteq> [] \<and> list_all is_digit k \<and> (k = ''0'' \<or> hd k \<noteq> CHR ''0'')
         \<and> digits_val k < 2 ^ 32 - 1
      then Some (digits_val k) else None)"

definition lookup :: "(string \<times> jsval) list \<Rightarrow> string \<Rightarrow> jsval" where
  "lookup kvs k = (case map_of kvs k of None \<Rightarrow> JUndef | Some v \<Rightarrow> v)"

text \<open>
  \<open>js_get v k\<close> is \<^verbatim>\<open>v[k]\<close> for a \<open>v\<close> that is neither null nor undefined: an own property of
  an object, an element, the length or a named property of an array, a code unit or the
  length of a string. The members that \<open>v\<close> inherits are not represented: for the name of
  an inherited function the model has undefined (in \<^verbatim>\<open>setByPath\<close> both are replaced alike,
  since \<^verbatim>\<open>typeof\<close> of neither is \<^verbatim>\<open>'object'\<close>); the inherited accessor \<^verbatim>\<open>__proto__\<close> is outside
  the model, here and in \<open>js_put\<close>, and the round trip below is not stated for a path with
  that key.
\<close>

fun js_get :: "jsval \<Rightarrow> string \<Rightarrow> jsval" where
  "js_get (JObj kvs) k = lookup kvs k"
| "js_get (JArr xs ps) k =
     (case array_index k of
        Some i \<Rightarrow> (if i < length xs then xs ! i else JUndef)
      | None \<Rightarrow> (if k = ''length'' then JNum (int (length xs)) else lookup ps k))"
| "js_get (JStr s) k =
     (case array_index k of
        Some i \<Rightarrow> (if i < length s then JStr [s ! i] else JUndef)
      | None \<Rightarrow> (if k = ''length'' then JNum (int (length s)) else JUndef))"
| "js_get _ k = JUndef"

text \<open>
  \<open>js_put v k x\<close> is the assignment \<^verbatim>\<open>v[k] = x\<close> and returns the updated \<open>v\<close>. On null and
  undefined it throws; on another primitive it has no effect (the file is not in strict
  mode). An assignment past the end of an array fills the gap (the holes read as
  undefined); an assignment to the length of an array needs an integer below \<open>2 ^ 32\<close>.
\<close>

definition array_length :: "jsval \<Rightarrow> nat option" where
  "array_length x =
     (case js_to_number x of
        Fin r \<Rightarrow> (if 0 \<le> r \<and> r < 2 ^ 32 \<and> r = of_int \<lfloor>r\<rfloor> then Some (nat \<lfloor>r\<rfloor>) else None)
      | _ \<Rightarrow> None)"

fun js_put :: "jsval \<Rightarrow> string \<Rightarrow> jsval \<Rightarrow> error + jsval" where
  "js_put JUndef k x = Inl TypeError"
| "js_put JNull k x = Inl TypeError"
| "js_put (JObj kvs) k x = Inr (JObj (AList.update k x kvs))"
| "js_put (JArr xs ps) k x =
     (case array_index k of
        Some i \<Rightarrow>
          Inr (if i < length xs then JArr (xs[i := x]) ps
               else JArr (xs @ replicate (i - length xs) JUndef @ [x]) ps)
      | None \<Rightarrow>
          (if k = ''length'' then
             (case array_length x of
                None \<Rightarrow> Inl RangeError
              | Some n \<Rightarrow> Inr (JArr (take n xs @ replicate (n - length xs) JUndef) ps))
           else Inr (JArr xs (AList.update k x ps))))"
| "js_put v k x = Inr v"

subsection \<open>The path helpers\<close>

text \<open>\<^verbatim>\<open>getByPath\<close> (lines 86-91); \<open>walk\<close> is its \<^verbatim>\<open>reduce\<close> over the keys.\<close>

definition walk :: "jsval \<Rightarrow> string list \<Rightarrow> jsval" where
  "walk obj keys =
     foldl (\<lambda>acc key. if \<not> is_nullish acc then js_get acc key else JUndef) obj keys"

definition getByPath :: "jsval \<Rightarrow> string \<Rightarrow> jsval" where
  "getByPath obj path = (if path = [] then JUndef else walk obj (js_split CHR ''.'' path))"

text \<open>\<^verbatim>\<open>norm\<close> (line 94)\<close>

definition norm_str :: "jsval \<Rightarrow> string" where
  "norm_str v = (if is_nullish v then [] else toLowerCase (js_to_string v))"

text \<open>
  \<^verbatim>\<open>setByPath\<close> (lines 97-109). The loop over the keys is the recursion of \<open>set_keys\<close>, which
  returns the updated node: the source mutates the child \<^verbatim>\<open>node[k]\<close> in place, the model
  stores the updated child back under \<open>k\<close>.
\<close>

fun set_keys :: "jsval \<Rightarrow> string list \<Rightarrow> jsval \<Rightarrow> error + jsval" where
  "set_keys node [] v = Inr node"
| "set_keys node [k] v = js_put node k v"
| "set_keys node (k # k' # ks) v =
     (if is_nullish node then Inl TypeError
      else
        (case (if \<not> is_object (js_get node k) then js_put node k (JObj []) else Inr node) of
           Inl e \<Rightarrow> Inl e
         | Inr node1 \<Rightarrow>
             (case set_keys (js_get node1 k) (k' # ks) v of
                Inl e \<Rightarrow> Inl e
              | Inr child \<Rightarrow> js_put node1 k child)))"

definition setByPath :: "jsval \<Rightarrow> string \<Rightarrow> jsval \<Rightarrow> error + jsval" where
  "setByPath target path v = set_keys target (js_split CHR ''.'' path) v"

subsection \<open>Projection\<close>

text \<open>\<^verbatim>\<open>prepareCharacter\<close> (lines 112-130); \<open>project_fields\<close> is its loop over the field list.\<close>

fun project_fields :: "jsval \<Rightarrow> string list \<Rightarrow> jsval \<Rightarrow> error + jsval" where
  "project_fields character [] out = Inr out"
| "project_fields character (p # ps) out =
     (let val = getByPath character p in
      if val \<noteq> JUndef then
        (case setByPath out p val of
           Inl e \<Rightarrow> Inl e
         | Inr out' \<Rightarrow> project_fields character ps out')
      else project_fields character ps out)"

definition prepareCharacter :: "jsval \<Rightarrow> jsval \<Rightarrow> error + jsval" where
  "prepareCharacter character fields =
     (if \<not> truthy character then Inr character
      else if fields = JStr ''*'' \<or> (isArray fields \<and> JStr ''*'' \<in> set (elements fields))
      then Inr character
      else
        (let list = (if isArray fields
                     then filter (\<lambda>s. s \<noteq> [])
                            (map (\<lambda>s. js_trim (js_to_string s)) (filter truthy (elements fields)))
                     else [])
         in if list = [] then Inr (JObj []) else project_fields character list (JObj [])))"

text \<open>The field list of the list view (line 251).\<close>

definition list_view :: jsval where
  "list_view = JArr [JStr ''id'', JStr ''name'', JStr ''images'', JStr ''appearance.race''] []"

subsection \<open>Sorting\<close>

text \<open>
  \<^verbatim>\<open>Array.prototype.sort\<close> with a comparator \<open>c\<close>: a positive \<open>c x y\<close> puts \<open>x\<close> after \<open>y\<close>, and
  NaN counts as zero. The language fixes the result for a consistent comparator only
  (there it is the stable sorted arrangement); the model is a stable insertion sort.
  Undefined elements go to the end and are never compared.
\<close>

definition is_positive :: "jsnum \<Rightarrow> bool" where
  "is_positive a = (case a of PInf \<Rightarrow> True | Fin x \<Rightarrow> 0 < x | _ \<Rightarrow> False)"

definition is_negative :: "jsnum \<Rightarrow> bool" where
  "is_negative a = (case a of NInf \<Rightarrow> True | Fin x \<Rightarrow> x < 0 | _ \<Rightarrow> False)"

fun insert_by :: "('a \<Rightarrow> 'a \<Rightarrow> jsnum) \<Rightarrow> 'a \<Rightarrow> 'a list \<Rightarrow> 'a list" where
  "insert_by c x [] = [x]"
| "insert_by c x (y # ys) = (if is_positive (c x y) then y # insert_by c x ys else x # y # ys)"

definition sort_by :: "('a \<Rightarrow> 'a \<Rightarrow> jsnum) \<Rightarrow> 'a list \<Rightarrow> 'a list" where
  "sort_by c xs = foldr (insert_by c) xs []"

definition js_sort :: "(jsval \<Rightarrow> jsval \<Rightarrow> jsnum) \<Rightarrow> jsval list \<Rightarrow> jsval list" where
  "js_sort c xs = sort_by c (filter (\<lambda>x. x \<noteq> JUndef) xs) @ filter (\<lambda>x. x = JUndef) xs"

subsection \<open>The distinct races (lines 56-83)\<close>

text \<open>\<^verbatim>\<open>v?.k\<close>\<close>

definition opt_get :: "jsval \<Rightarrow> string \<Rightarrow> jsval" where
  "opt_get v k = (if is_nullish v then JUndef else js_get v k)"

text \<open>The set of races is a list without repetition, in insertion order.\<close>

definition addRace :: "string list \<Rightarrow> string \<Rightarrow> string list" where
  "addRace racesSet val =
     (let r = js_trim val in
      if r = [] \<or> r = ''-'' \<or> toLowerCase r = ''null'' \<or> toLowerCase r = ''n/a'' then racesSet
      else if r \<in> set racesSet then racesSet
      else racesSet @ [r])"

text \<open>\<^verbatim>\<open>ch?.appearance?.race\<close>\<close>

definition race_of :: "jsval \<Rightarrow> jsval" where
  "race_of ch = opt_get (opt_get ch ''appearance'') ''race''"

definition races_step :: "string list \<Rightarrow> jsval \<Rightarrow> string list" where
  "races_step racesSet ch =
     (let race = race_of ch in
      if \<not> truthy race then racesSet
      else
        (let raw = js_to_string race;
             parts = filter (\<lambda>p. p \<noteq> []) (map js_trim (js_split CHR ''/'' raw))
         in if 1 < length parts then foldl addRace racesSet parts else addRace racesSet raw))"

definition races_handler :: "(string \<Rightarrow> string \<Rightarrow> int) \<Rightarrow> jsval list \<Rightarrow> string list" where
  "races_handler lc list =
     sort_by (\<lambda>a b. Fin (of_int (lc a b))) (foldl races_step [] list)"

subsection \<open>The characters query (lines 133-254)\<close>

type_synonym query = "(string \<times> string) list"

definition param :: "query \<Rightarrow> string \<Rightarrow> string option" where
  "param q k = map_of q k"

text \<open>\<^verbatim>\<open>a || b || d\<close> on parameters: the first one that is present and not empty.\<close>

fun first_of :: "string option list \<Rightarrow> string \<Rightarrow> string" where
  "first_of [] d = d"
| "first_of (None # r) d = first_of r d"
| "first_of (Some s # r) d = (if s \<noteq> [] then s else first_of r d)"

definition parse_page :: "query \<Rightarrow> jsnum" where
  "parse_page q =
     num_max (Fin 1) (num_or (parseInt (first_of [param q ''page'', param q ''_page''] ''1'')) (Fin 1))"

definition parse_limit :: "query \<Rightarrow> jsnum" where
  "parse_limit q =
     num_max (Fin 1)
       (num_or (parseInt (first_of [param q ''limit'', param q ''_limit''] ''20'')) (Fin 20))"

definition parse_sortKey :: "query \<Rightarrow> string" where
  "parse_sortKey q = js_trim (first_of [param q ''sort'', param q ''_sort''] [])"

definition parse_sortOrder :: "query \<Rightarrow> string" where
  "parse_sortOrder q =
     (if toLowerCase (first_of [param q ''order'', param q ''_order''] ''asc'') = ''desc''
      then ''desc'' else ''asc'')"

definition parse_q :: "query \<Rightarrow> string" where
  "parse_q q = js_trim (first_of [param q ''q''] [])"

definition excluded :: "string list" where
  "excluded = [''page'', ''_page'', ''limit'', ''_limit'', ''sort'', ''_sort'', ''order'', ''_order'',
     ''q'', ''race'']"

definition filterKeys :: "query \<Rightarrow> string list" where
  "filterKeys q = filter (\<lambda>k. k \<notin> set excluded) (map fst q)"

text \<open>
  The search predicate (lines 167-174). \<^verbatim>\<open>item.name\<close> is a plain property access, which
  throws on a null or undefined item.
\<close>

definition search_match :: "string \<Rightarrow> jsval \<Rightarrow> error + bool" where
  "search_match nq item =
     (if is_nullish item then Inl TypeError
      else Inr (str_includes (norm_str (js_get item ''name'')) nq
              \<or> str_includes (norm_str (js_get item ''slug'')) nq
              \<or> str_includes (norm_str (getByPath item ''biography.fullName'')) nq
              \<or> str_includes (norm_str (getByPath item ''biography.publisher'')) nq))"

text \<open>\<^verbatim>\<open>list.filter(f)\<close> for a predicate that may throw: the first exception ends the call.\<close>

fun filter_throwing :: "('a \<Rightarrow> error + bool) \<Rightarrow> 'a list \<Rightarrow> error + 'a list" where
  "filter_throwing f [] = Inr []"
| "filter_throwing f (x # xs) =
     (case f x of
        Inl e \<Rightarrow> Inl e
      | Inr b \<Rightarrow>
          (case filter_throwing f xs of
             Inl e \<Rightarrow> Inl e
           | Inr ys \<Rightarrow> Inr (if b then x # ys else ys)))"

text \<open>The race filter (lines 178-195).\<close>

definition racesWanted :: "string \<Rightarrow> string list" where
  "racesWanted race =
     filter (\<lambda>s. s \<noteq> []) (map (\<lambda>s. toLowerCase (js_trim s)) (js_split CHR '','' race))"

definition race_parts :: "jsval \<Rightarrow> string list" where
  "race_parts raw =
     filter (\<lambda>p. p \<noteq> [])
       (map (\<lambda>p. toLowerCase (js_trim p)) (js_split CHR ''/'' (js_to_string raw)))"

definition race_match :: "string list \<Rightarrow> jsval \<Rightarrow> bool" where
  "race_match wanted item =
     (let raw = race_of item in
      if \<not> truthy raw then False
      else list_ex (\<lambda>p. p \<in> set wanted) (race_parts raw))"

definition race_filter :: "query \<Rightarrow> jsval list \<Rightarrow> jsval list" where
  "race_filter q list =
     (case param q ''race'' of
        None \<Rightarrow> list
      | Some race \<Rightarrow>
          (if racesWanted race \<noteq> [] then filter (race_match (racesWanted race)) list else list))"

text \<open>The field filters (lines 198-218).\<close>

definition field_match :: "jsval \<Rightarrow> string \<Rightarrow> string \<Rightarrow> bool" where
  "field_match item key expected =
     (let actual = getByPath item key in
      if isArray actual then expected \<in> set (map js_to_string (elements actual))
      else
        (let expNum = string_to_number expected;
             actNum = js_to_number actual
         in if expNum \<noteq> NaN \<and> actNum \<noteq> NaN then actNum = expNum
            else str_includes (norm_str actual) (norm_str (JStr expected))))"

definition field_filter :: "query \<Rightarrow> jsval list \<Rightarrow> jsval list" where
  "field_filter q list =
     (if filterKeys q \<noteq> []
      then filter (\<lambda>item. list_all (\<lambda>key. field_match item key (the (param q key))) (filterKeys q)) list
      else list)"

text \<open>The comparator of the sort (lines 222-238).\<close>

definition compare_records ::
  "(string \<Rightarrow> string \<Rightarrow> int) \<Rightarrow> string \<Rightarrow> string \<Rightarrow> jsval \<Rightarrow> jsval \<Rightarrow> jsnum" where
  "compare_records lc sortOrder sortKey a b =
     (let va = getByPath a sortKey; vb = getByPath b sortKey in
      if is_nullish va \<and> is_nullish vb then Fin 0
      else if is_nullish va then (if sortOrder = ''asc'' then Fin (- 1) else Fin 1)
      else if is_nullish vb then (if sortOrder = ''asc'' then Fin 1 else Fin (- 1))
      else
        (let na = js_to_number va; nb = js_to_number vb;
             cmp = (if na \<noteq> NaN \<and> nb \<noteq> NaN then num_sub na nb
                    else Fin (of_int (lc (js_to_string va) (js_to_string vb))))
         in if sortOrder = ''asc'' then cmp else num_neg cmp))"

definition sort_stage :: "(string \<Rightarrow> string \<Rightarrow> int) \<Rightarrow> query \<Rightarrow> jsval list \<Rightarrow> jsval list" where
  "sort_stage lc q list =
     (if parse_sortKey q \<noteq> []
      then js_sort (compare_records lc (parse_sortOrder q) (parse_sortKey q)) list
      else list)"

definition search_stage :: "query \<Rightarrow> jsval list \<Rightarrow> error + jsval list" where
  "search_stage q list =
     (if parse_q q \<noteq> [] then filter_throwing (search_match (norm_str (JStr (parse_q q)))) list
      else Inr list)"

text \<open>The list after search, filters and sort: the value of \<^verbatim>\<open>list\<close> at line 241.\<close>

definition filtered_list ::
  "(string \<Rightarrow> string \<Rightarrow> int) \<Rightarrow> query \<Rightarrow> jsval list \<Rightarrow> error + jsval list" where
  "filtered_list lc q coll =
     (case search_stage q coll of
        Inl e \<Rightarrow> Inl e
      | Inr list \<Rightarrow> Inr (sort_stage lc q (field_filter q (race_filter q list))))"

text \<open>\<^verbatim>\<open>list.slice(start, end)\<close>: both bounds are made integral and clamped to the list.\<close>

definition slice_index :: "nat \<Rightarrow> jsnum \<Rightarrow> nat" where
  "slice_index len a =
     (case a of
        NaN \<Rightarrow> 0
      | NInf \<Rightarrow> 0
      | PInf \<Rightarrow> len
      | Fin x \<Rightarrow>
          (if x < 0 then nat (max 0 (int len + \<lceil>x\<rceil>)) else min (nat \<lfloor>x\<rfloor>) len))"

definition slice :: "jsnum \<Rightarrow> jsnum \<Rightarrow> 'a list \<Rightarrow> 'a list" where
  "slice start end list =
     take (slice_index (length list) end - slice_index (length list) start)
       (drop (slice_index (length list) start) list)"

text \<open>The response \<^verbatim>\<open>{ data, meta: { total, page, limit, pages } }\<close>.\<close>

record response =
  data :: "jsval list"
  meta_total :: nat
  meta_page :: jsnum
  meta_limit :: jsnum
  meta_pages :: jsnum

text \<open>\<^verbatim>\<open>data.map(f)\<close> for an \<open>f\<close> that may throw.\<close>

fun map_throwing :: "('a \<Rightarrow> error + 'b) \<Rightarrow> 'a list \<Rightarrow> error + 'b list" where
  "map_throwing f [] = Inr []"
| "map_throwing f (x # xs) =
     (case f x of
        Inl e \<Rightarrow> Inl e
      | Inr y \<Rightarrow> (case map_throwing f xs of Inl e \<Rightarrow> Inl e | Inr ys \<Rightarrow> Inr (y # ys)))"

text \<open>Lines 241-253: pagination, projection and the response.\<close>

definition paginate :: "jsnum \<Rightarrow> jsnum \<Rightarrow> jsval list \<Rightarrow> error + response" where
  "paginate page limit list =
     (let total = length list;
          pages = num_max (Fin 1) (num_ceil (num_div (of_nat_num total) limit));
          currentPage = num_min page pages;
          start = num_mul (num_sub currentPage (Fin 1)) limit;
          end = num_add start limit
      in case map_throwing (\<lambda>c. prepareCharacter c list_view) (slice start end list) of
           Inl e \<Rightarrow> Inl e
         | Inr payload \<Rightarrow>
             Inr \<lparr> data = payload, meta_total = total, meta_page = currentPage,
                   meta_limit = limit, meta_pages = pages \<rparr>)"

definition characters_handler ::
  "(string \<Rightarrow> string \<Rightarrow> int) \<Rightarrow> query \<Rightarrow> jsval list \<Rightarrow> error + response" where
  "characters_handler lc q coll =
     (case filtered_list lc q coll of
        Inl e \<Rightarrow> Inl e
      | Inr list \<Rightarrow> paginate (parse_page q) (parse_limit q) list)"

subsection \<open>Notions of the specification\<close>

text \<open>
  The tokens of a delimited text, as the specification words them: the text is split at
  the delimiter, each part is trimmed and lower-cased, and the empty parts are discarded.
\<close>

definition spec_tokens :: "char \<Rightarrow> string \<Rightarrow> string list" where
  "spec_tokens delimiter text =
     filter (\<lambda>t. t \<noteq> []) (map (\<lambda>part. toLowerCase (js_trim part)) (js_split delimiter text))"

text \<open>The order of numbers; NaN is not comparable.\<close>

definition num_less :: "jsnum \<Rightarrow> jsnum \<Rightarrow> bool" where
  "num_less a b = (num_le a b \<and> a \<noteq> b)"

text \<open>
  The writes of \<^verbatim>\<open>setByPath\<close> that cannot be read back: on its walk from \<open>node\<close> along the
  keys, the helper assigns the \<^verbatim>\<open>length\<close> of an array, either the empty object (a step of
  the walk, where the length is no object) or, at the last key, a value that is not an
  integer number from 0 to \<open>2 ^ 32 - 1\<close>.
\<close>

fun length_write :: "jsval \<Rightarrow> string list \<Rightarrow> jsval \<Rightarrow> bool" where
  "length_write node [] v = False"
| "length_write node [k] v =
     (isArray node \<and> k = ''length''
      \<and> (case v of JNum n \<Rightarrow> \<not> (0 \<le> n \<and> n < 2 ^ 32) | _ \<Rightarrow> True))"
| "length_write node (k # k' # ks) v =
     (if is_object (js_get node k) then length_write (js_get node k) (k' # ks) v
      else isArray node \<and> k = ''length'')"




section \<open>Properties\<close>

subsection \<open>Strings and text forms\<close>

lemma toLowerCase_Nil [simp]: "toLowerCase [] = []"
  by (simp add: toLowerCase_def)

lemma toLowerCase_eq_Nil [simp]: "(toLowerCase s = []) = (s = [])"
  by (simp add: toLowerCase_def)

lemma norm_str_JStr: "norm_str (JStr s) = toLowerCase s"
  by (simp add: norm_str_def is_nullish_def)

subsection \<open>Field filters\<close>

text \<open>
  C4 as stated fails: the record \<^verbatim>\<open>{}\<close> has no attribute \<^verbatim>\<open>foo\<close>, and the filter
  \<^verbatim>\<open>foo=\<close> (empty expected text) accepts it.
\<close>

theorem unresolved_attribute_counterexample:
  "getByPath (JObj []) ''foo'' = JUndef \<and> field_match (JObj []) ''foo'' ''''"
  by code_simp

text \<open>
  C4, amended: when the path of a field filter resolves to undefined on a record, the
  record matches the filter exactly when the expected text is empty; for every expected
  text that is not empty an unresolved attribute does not match.
\<close>

theorem unresolved_attribute_match:
  assumes "getByPath item key = JUndef"
  shows "field_match item key expected \<longleftrightarrow> expected = []"
  using assms by (simp add: field_match_def norm_str_JStr norm_str_def is_nullish_def)

theorem unresolved_attribute_witness:
  "getByPath (JObj []) ''foo'' = JUndef \<and> \<not> field_match (JObj []) ''foo'' ''x''"
proof -
  have h: "getByPath (JObj []) ''foo'' = JUndef"
    by code_simp
  from unresolved_attribute_match [OF h, of "''x''"] h show ?thesis
    by simp
qed

subsection \<open>Evaluating numerals\<close>

lemma to_number_range_small: "\<bar>r\<bar> < 2 ^ 64 \<Longrightarrow> to_number_range r = Fin r"
proof -
  assume a: "\<bar>r\<bar> < 2 ^ 64"
  have "(2::rat) ^ 64 < 2 ^ 1024 - 2 ^ 970"
    by simp
  with a have "r < 2 ^ 1024 - 2 ^ 970" "\<not> r \<le> - (2 ^ 1024 - 2 ^ 970)"
    by linarith+
  then show ?thesis
    by (simp add: to_number_range_def)
qed

lemma decimal_literal_100: "decimal_literal ''100'' = Some 100"
  by code_simp

lemma js_trim_100: "js_trim ''100'' = ''100''"
  by code_simp

lemma string_to_number_100: "string_to_number ''100'' = Fin 100"
  by (simp add: string_to_number_def js_trim_100 unsigned_literal_def decimal_literal_100
      to_number_range_small)

subsection \<open>The comparison policy of the field filters\<close>

lemma filterKeys_param: "key \<in> set (filterKeys q) \<Longrightarrow> \<exists>expected. param q key = Some expected"
  by (auto simp: filterKeys_def param_def weak_map_of_SomeI)

lemma field_filter_all:
  "field_filter q list =
     filter (\<lambda>item. \<forall>key \<in> set (filterKeys q). field_match item key (the (param q key))) list"
  by (cases "filterKeys q = []") (simp_all add: field_filter_def list_all_iff)

lemma strength_number:
  "getByPath (JObj [(''powerstats'', JObj [(''strength'', JNum 100)])]) ''powerstats.strength''
     = JNum 100"
  by code_simp

lemma strength_text:
  "getByPath (JObj [(''powerstats'', JObj [(''strength'', JStr ''100'')])]) ''powerstats.strength''
     = JStr ''100''"
  by code_simp

text \<open>
  C3 as stated fails when "the text form" of the attribute is \<^verbatim>\<open>String(actual)\<close>, the text
  form the claim uses for the elements of an array: the record \<^verbatim>\<open>{a: null}\<close> and the filter
  \<^verbatim>\<open>a=null\<close> reach the substring comparison (\<^verbatim>\<open>Number('null')\<close> is NaN), the expected text
  occurs in \<^verbatim>\<open>String(null)\<close>, and the record does not match.
\<close>

theorem field_match_text_form_counterexample:
  "\<not> isArray (getByPath (JObj [(''a'', JNull)]) ''a'')
   \<and> string_to_number ''null'' = NaN
   \<and> str_includes (toLowerCase (js_to_string (getByPath (JObj [(''a'', JNull)]) ''a'')))
        (toLowerCase ''null'')
   \<and> \<not> field_match (JObj [(''a'', JNull)]) ''a'' ''null''"
  by code_simp

text \<open>
  C3, amended: the match of a field filter is decided in this order. If the value at the
  path is an array, the record matches iff the expected text equals \<^verbatim>\<open>String(e)\<close> for an
  element \<open>e\<close>. Otherwise, if \<^verbatim>\<open>Number\<close> of the expected text and of the value are both not
  NaN, the record matches iff the two numbers are equal. Otherwise the record matches iff
  the lower-cased expected text occurs in the lower-cased text form of the value, where
  the text form of null and of undefined is empty. A list is filtered to the records
  that match every field filter. The filter \<^verbatim>\<open>powerstats.strength=100\<close> matches the number
  100 and the text \<^verbatim>\<open>"100"\<close>.
\<close>

theorem field_match_policy:
  "(isArray (getByPath item key) \<longrightarrow>
      (field_match item key expected \<longleftrightarrow>
         (\<exists>e \<in> set (elements (getByPath item key)). js_to_string e = expected)))
   \<and> (\<not> isArray (getByPath item key)
        \<and> string_to_number expected \<noteq> NaN \<and> js_to_number (getByPath item key) \<noteq> NaN \<longrightarrow>
      (field_match item key expected \<longleftrightarrow>
         js_to_number (getByPath item key) = string_to_number expected))
   \<and> (\<not> isArray (getByPath item key)
        \<and> \<not> (string_to_number expected \<noteq> NaN \<and> js_to_number (getByPath item key) \<noteq> NaN) \<longrightarrow>
      (field_match item key expected \<longleftrightarrow>
         str_includes
           (toLowerCase (if is_nullish (getByPath item key) then []
                         else js_to_string (getByPath item key)))
           (toLowerCase expected)))
   \<and> field_filter q list =
       filter (\<lambda>r. \<forall>k \<in> set (filterKeys q). field_match r k (the (param q k))) list
   \<and> field_match (JObj [(''powerstats'', JObj [(''strength'', JNum 100)])])
        ''powerstats.strength'' ''100''
   \<and> field_match (JObj [(''powerstats'', JObj [(''strength'', JStr ''100'')])])
        ''powerstats.strength'' ''100''"
proof (intro conjI impI)
  show "field_match (JObj [(''powerstats'', JObj [(''strength'', JNum 100)])])
        ''powerstats.strength'' ''100''"
    by (simp add: field_match_def strength_number string_to_number_100)
  show "field_match (JObj [(''powerstats'', JObj [(''strength'', JStr ''100'')])])
        ''powerstats.strength'' ''100''"
    by (simp add: field_match_def strength_text string_to_number_100)
  show "field_filter q list =
       filter (\<lambda>r. \<forall>k \<in> set (filterKeys q). field_match r k (the (param q k))) list"
    by (rule field_filter_all)
qed (auto simp: field_match_def Let_def norm_str_JStr norm_str_def is_nullish_def)

theorem field_match_policy_witness:
  "string_to_number ''100'' \<noteq> NaN
   \<and> js_to_number (getByPath (JObj [(''strength'', JStr ''100'')]) ''strength'') \<noteq> NaN
   \<and> \<not> isArray (getByPath (JObj [(''strength'', JStr ''100'')]) ''strength'')
   \<and> field_match (JObj [(''strength'', JStr ''100'')]) ''strength'' ''100''
   \<and> field_filter [(''strength'', ''100'')] [JObj [(''strength'', JStr ''100'')], JObj []]
       = [JObj [(''strength'', JStr ''100'')]]"
proof -
  have g: "getByPath (JObj [(''strength'', JStr ''100'')]) ''strength'' = JStr ''100''"
    by code_simp
  have u: "getByPath (JObj []) ''strength'' = JUndef"
    by code_simp
  have k: "filterKeys [(''strength'', ''100'')] = [''strength'']"
    by code_simp
  have n: "\<not> field_match (JObj []) ''strength'' ''100''"
    by (simp add: field_match_def u string_to_number_100 norm_str_def is_nullish_def)
  from field_match_policy [of "JObj [(''strength'', JStr ''100'')]" "''strength''" "''100''"
      "[(''strength'', ''100'')]" "[JObj [(''strength'', JStr ''100'')], JObj []]"]
  show ?thesis
    by (simp add: g k n string_to_number_100 param_def)
qed

subsection \<open>The race filter\<close>

lemma racesWanted_tokens: "racesWanted race = spec_tokens CHR '','' race"
  by (simp add: racesWanted_def spec_tokens_def)

lemma race_parts_tokens: "race_parts raw = spec_tokens CHR ''/'' (js_to_string raw)"
  by (simp add: race_parts_def spec_tokens_def)

lemma spec_tokens_Nil [simp]: "spec_tokens c [] = []"
  by (simp add: spec_tokens_def js_trim_def)

lemma race_match_iff:
  "race_match wanted item \<longleftrightarrow>
     truthy (race_of item)
     \<and> (\<exists>t \<in> set (spec_tokens CHR ''/'' (js_to_string (race_of item))). t \<in> set wanted)"
  by (auto simp: race_match_def Let_def race_parts_tokens list_ex_iff)

lemma cyborg_example:
  "race_filter [(''race'', ''cyborg'')]
     [JObj [(''appearance'', JObj [(''race'', JStr ''Human / Cyborg'')])]]
   = [JObj [(''appearance'', JObj [(''race'', JStr ''Human / Cyborg'')])]]"
  by code_simp

text \<open>
  C2: when the \<^verbatim>\<open>race\<close> parameter is given and its tokens (split at commas, trimmed,
  lower-cased, empty ones discarded) are not all empty, the filter keeps exactly the
  records that match, in their order; a record whose race is a text matches iff one of the
  tokens of that text (split at \<^verbatim>\<open>/\<close>, trimmed, lower-cased, empty ones discarded) is among
  the requested tokens; a record without race (undefined or null, also for want of an
  \<^verbatim>\<open>appearance\<close>) never matches; in general a record matches iff its race is truthy and
  a token of \<^verbatim>\<open>String(race)\<close> is requested. The race \<^verbatim>\<open>"Human / Cyborg"\<close> matches the request
  \<^verbatim>\<open>cyborg\<close>.
\<close>

theorem race_filter_policy:
  assumes "param q ''race'' = Some race" and "spec_tokens CHR '','' race \<noteq> []"
  shows "race_filter q list = filter (race_match (spec_tokens CHR '','' race)) list
    \<and> (\<forall>item s. race_of item = JStr s \<longrightarrow>
          (race_match (spec_tokens CHR '','' race) item \<longleftrightarrow>
             (\<exists>t \<in> set (spec_tokens CHR ''/'' s). t \<in> set (spec_tokens CHR '','' race))))
    \<and> (\<forall>item. is_nullish (race_of item) \<longrightarrow> \<not> race_match (spec_tokens CHR '','' race) item)
    \<and> (\<forall>item. race_match (spec_tokens CHR '','' race) item \<longleftrightarrow>
          truthy (race_of item)
          \<and> (\<exists>t \<in> set (spec_tokens CHR ''/'' (js_to_string (race_of item))).
                t \<in> set (spec_tokens CHR '','' race)))
    \<and> race_filter [(''race'', ''cyborg'')]
         [JObj [(''appearance'', JObj [(''race'', JStr ''Human / Cyborg'')])]]
       = [JObj [(''appearance'', JObj [(''race'', JStr ''Human / Cyborg'')])]]"
proof (intro conjI allI impI)
  show "race_filter q list = filter (race_match (spec_tokens CHR '','' race)) list"
    using assms by (simp add: race_filter_def racesWanted_tokens)
next
  fix item s
  assume "race_of item = JStr s"
  then show "race_match (spec_tokens CHR '','' race) item \<longleftrightarrow>
             (\<exists>t \<in> set (spec_tokens CHR ''/'' s). t \<in> set (spec_tokens CHR '','' race))"
    by (cases "s = []") (simp_all add: race_match_iff)
next
  fix item
  assume "is_nullish (race_of item)"
  then show "\<not> race_match (spec_tokens CHR '','' race) item"
    by (auto simp: race_match_iff is_nullish_def)
next
  fix item
  show "race_match (spec_tokens CHR '','' race) item \<longleftrightarrow>
          truthy (race_of item)
          \<and> (\<exists>t \<in> set (spec_tokens CHR ''/'' (js_to_string (race_of item))).
                t \<in> set (spec_tokens CHR '','' race))"
    by (rule race_match_iff)
next
  show "race_filter [(''race'', ''cyborg'')]
         [JObj [(''appearance'', JObj [(''race'', JStr ''Human / Cyborg'')])]]
       = [JObj [(''appearance'', JObj [(''race'', JStr ''Human / Cyborg'')])]]"
    by (rule cyborg_example)
qed

theorem race_filter_policy_witness:
  "param [(''race'', ''Cyborg, alien'')] ''race'' = Some ''Cyborg, alien''
   \<and> spec_tokens CHR '','' ''Cyborg, alien'' = [''cyborg'', ''alien'']
   \<and> race_filter [(''race'', ''Cyborg, alien'')]
        [JObj [(''appearance'', JObj [(''race'', JStr ''Human'')])],
         JObj [(''appearance'', JObj [(''race'', JStr ''Human / Cyborg'')])],
         JObj [(''name'', JStr ''x'')]]
      = [JObj [(''appearance'', JObj [(''race'', JStr ''Human / Cyborg'')])]]"
proof -
  have p: "param [(''race'', ''Cyborg, alien'')] ''race'' = Some ''Cyborg, alien''"
    by code_simp
  have t: "spec_tokens CHR '','' ''Cyborg, alien'' = [''cyborg'', ''alien'']"
    by code_simp
  have n: "spec_tokens CHR '','' ''Cyborg, alien'' \<noteq> []"
    by (simp add: t)
  have m1: "\<not> race_match [''cyborg'', ''alien''] (JObj [(''appearance'', JObj [(''race'', JStr ''Human'')])])"
    by code_simp
  have m2: "race_match [''cyborg'', ''alien''] (JObj [(''appearance'', JObj [(''race'', JStr ''Human / Cyborg'')])])"
    by code_simp
  have m3: "\<not> race_match [''cyborg'', ''alien''] (JObj [(''name'', JStr ''x'')])"
    by code_simp
  have "race_filter [(''race'', ''Cyborg, alien'')]
        [JObj [(''appearance'', JObj [(''race'', JStr ''Human'')])],
         JObj [(''appearance'', JObj [(''race'', JStr ''Human / Cyborg'')])],
         JObj [(''name'', JStr ''x'')]]
      = [JObj [(''appearance'', JObj [(''race'', JStr ''Human / Cyborg'')])]]"
    by (simp add: conjunct1 [OF race_filter_policy [OF p n]] t m1 m2 m3)
  with p t show ?thesis
    by simp
qed

subsection \<open>The comparator of the sort\<close>

lemma is_negative_simps [simp]:
  "is_negative NaN = False" "is_negative NInf = True" "is_negative PInf = False"
  "is_negative (Fin x) = (x < 0)"
  by (simp_all add: is_negative_def)

lemma is_positive_simps [simp]:
  "is_positive NaN = False" "is_positive NInf = False" "is_positive PInf = True"
  "is_positive (Fin x) = (0 < x)"
  by (simp_all add: is_positive_def)

lemma is_negative_num_neg [simp]: "is_negative (num_neg r) = is_positive r"
  by (cases r) (simp_all add: num_neg_def)

lemma is_positive_num_neg [simp]: "is_positive (num_neg r) = is_negative r"
  by (cases r) (simp_all add: num_neg_def)

lemma to_number_range_negative: "is_negative (to_number_range r) \<longleftrightarrow> r < 0"
proof -
  have "(0::rat) < 2 ^ 1024 - 2 ^ 970" by simp
  then show ?thesis
    by (auto simp: to_number_range_def)
qed

lemma to_number_range_positive: "is_positive (to_number_range r) \<longleftrightarrow> 0 < r"
proof -
  have "(0::rat) < 2 ^ 1024 - 2 ^ 970" by simp
  then show ?thesis
    by (auto simp: to_number_range_def)
qed

lemma num_sub_negative:
  "a \<noteq> NaN \<Longrightarrow> b \<noteq> NaN \<Longrightarrow> is_negative (num_sub a b) \<longleftrightarrow> num_less a b"
  by (cases a; cases b)
     (auto simp: num_sub_def num_neg_def num_less_def to_number_range_negative)

lemma num_sub_positive:
  "a \<noteq> NaN \<Longrightarrow> b \<noteq> NaN \<Longrightarrow> is_positive (num_sub a b) \<longleftrightarrow> num_less b a"
  by (cases a; cases b)
     (auto simp: num_sub_def num_neg_def num_less_def to_number_range_positive)


text \<open>
  C6: for two records and a sort key, with "missing" meaning that the key resolves to
  undefined or null. If exactly one side is missing, the comparator is negative in
  ascending order when the first record is the missing one (it is ranked before the
  other) and positive in descending order, and conversely when the second one is missing;
  if both are missing it is zero. If both are present and both values are numbers under
  \<^verbatim>\<open>Number\<close>, the sign of the comparator follows the order of the two numbers (reversed in
  descending order); otherwise the comparator is \<^verbatim>\<open>localeCompare\<close> of the two text forms
  (negated in descending order). The direction is descending exactly when the order
  parameter, lower-cased, is \<^verbatim>\<open>desc\<close>, and ascending otherwise, in particular by default.
\<close>

theorem compare_records_policy:
  "(is_nullish (getByPath a k) \<and> \<not> is_nullish (getByPath b k) \<longrightarrow>
      is_negative (compare_records lc ''asc'' k a b)
      \<and> is_positive (compare_records lc ''desc'' k a b))
   \<and> (\<not> is_nullish (getByPath a k) \<and> is_nullish (getByPath b k) \<longrightarrow>
      is_positive (compare_records lc ''asc'' k a b)
      \<and> is_negative (compare_records lc ''desc'' k a b))
   \<and> (is_nullish (getByPath a k) \<and> is_nullish (getByPath b k) \<longrightarrow>
      compare_records lc ''asc'' k a b = Fin 0 \<and> compare_records lc ''desc'' k a b = Fin 0)
   \<and> (\<not> is_nullish (getByPath a k) \<and> \<not> is_nullish (getByPath b k)
        \<and> js_to_number (getByPath a k) \<noteq> NaN \<and> js_to_number (getByPath b k) \<noteq> NaN \<longrightarrow>
      (is_negative (compare_records lc ''asc'' k a b) \<longleftrightarrow>
         num_less (js_to_number (getByPath a k)) (js_to_number (getByPath b k)))
      \<and> (is_positive (compare_records lc ''asc'' k a b) \<longleftrightarrow>
         num_less (js_to_number (getByPath b k)) (js_to_number (getByPath a k)))
      \<and> (is_negative (compare_records lc ''desc'' k a b) \<longleftrightarrow>
         num_less (js_to_number (getByPath b k)) (js_to_number (getByPath a k)))
      \<and> (is_positive (compare_records lc ''desc'' k a b) \<longleftrightarrow>
         num_less (js_to_number (getByPath a k)) (js_to_number (getByPath b k))))
   \<and> (\<not> is_nullish (getByPath a k) \<and> \<not> is_nullish (getByPath b k)
        \<and> \<not> (js_to_number (getByPath a k) \<noteq> NaN \<and> js_to_number (getByPath b k) \<noteq> NaN) \<longrightarrow>
      compare_records lc ''asc'' k a b
        = Fin (of_int (lc (js_to_string (getByPath a k)) (js_to_string (getByPath b k))))
      \<and> compare_records lc ''desc'' k a b
        = Fin (of_int (- lc (js_to_string (getByPath a k)) (js_to_string (getByPath b k)))))
   \<and> (parse_sortOrder q = ''desc'' \<or> parse_sortOrder q = ''asc'')
   \<and> (parse_sortOrder q = ''desc'' \<longleftrightarrow>
        toLowerCase (first_of [param q ''order'', param q ''_order''] ''asc'') = ''desc'')
   \<and> (param q ''order'' = None \<and> param q ''_order'' = None \<longrightarrow> parse_sortOrder q = ''asc'')"
proof (intro conjI impI)
  assume h: "\<not> is_nullish (getByPath a k) \<and> \<not> is_nullish (getByPath b k)
        \<and> js_to_number (getByPath a k) \<noteq> NaN \<and> js_to_number (getByPath b k) \<noteq> NaN"
  then have asc: "compare_records lc ''asc'' k a b
      = num_sub (js_to_number (getByPath a k)) (js_to_number (getByPath b k))"
    by (simp add: compare_records_def Let_def)
  from h have desc: "compare_records lc ''desc'' k a b
      = num_neg (num_sub (js_to_number (getByPath a k)) (js_to_number (getByPath b k)))"
    by (simp add: compare_records_def Let_def)
  from h show "is_negative (compare_records lc ''asc'' k a b) \<longleftrightarrow>
         num_less (js_to_number (getByPath a k)) (js_to_number (getByPath b k))"
    by (simp add: asc num_sub_negative)
  from h show "is_positive (compare_records lc ''asc'' k a b) \<longleftrightarrow>
         num_less (js_to_number (getByPath b k)) (js_to_number (getByPath a k))"
    by (simp add: asc num_sub_positive)
  from h show "is_negative (compare_records lc ''desc'' k a b) \<longleftrightarrow>
         num_less (js_to_number (getByPath b k)) (js_to_number (getByPath a k))"
    by (simp add: desc num_sub_positive)
  from h show "is_positive (compare_records lc ''desc'' k a b) \<longleftrightarrow>
         num_less (js_to_number (getByPath a k)) (js_to_number (getByPath b k))"
    by (simp add: desc num_sub_negative)
next
  show "parse_sortOrder q = ''desc'' \<longleftrightarrow>
        toLowerCase (first_of [param q ''order'', param q ''_order''] ''asc'') = ''desc''"
    by (simp add: parse_sortOrder_def)
next
  assume "param q ''order'' = None \<and> param q ''_order'' = None"
  moreover have "toLowerCase ''asc'' \<noteq> ''desc''" by code_simp
  ultimately show "parse_sortOrder q = ''asc''"
    by (simp add: parse_sortOrder_def)
qed (auto simp: compare_records_def Let_def num_neg_def parse_sortOrder_def)


theorem compare_records_policy_witness:
  "is_nullish (getByPath (JObj []) ''k'') \<and> \<not> is_nullish (getByPath (JObj [(''k'', JNum 1)]) ''k'')
   \<and> is_negative (compare_records (\<lambda>s t. 0) ''asc'' ''k'' (JObj []) (JObj [(''k'', JNum 1)]))
   \<and> is_positive (compare_records (\<lambda>s t. 0) ''desc'' ''k'' (JObj []) (JObj [(''k'', JNum 1)]))
   \<and> parse_sortOrder [(''order'', ''DESC'')] = ''desc''
   \<and> parse_sortOrder [(''order'', ''down'')] = ''asc''"
proof -
  have a: "is_nullish (getByPath (JObj []) ''k'')"
    by code_simp
  have b: "\<not> is_nullish (getByPath (JObj [(''k'', JNum 1)]) ''k'')"
    by code_simp
  have d: "toLowerCase (first_of [param [(''order'', ''DESC'')] ''order'',
             param [(''order'', ''DESC'')] ''_order''] ''asc'') = ''desc''"
    by code_simp
  have e: "toLowerCase (first_of [param [(''order'', ''down'')] ''order'',
             param [(''order'', ''down'')] ''_order''] ''asc'') \<noteq> ''desc''"
    by code_simp
  note P = compare_records_policy [of "JObj []" "''k''" "JObj [(''k'', JNum 1)]" "\<lambda>s t. 0"]
  have ab: "is_nullish (getByPath (JObj []) ''k'')
      \<and> \<not> is_nullish (getByPath (JObj [(''k'', JNum 1)]) ''k'')"
    using a b by (rule conjI)
  have c: "is_negative (compare_records (\<lambda>s t. 0) ''asc'' ''k'' (JObj []) (JObj [(''k'', JNum 1)]))
      \<and> is_positive (compare_records (\<lambda>s t. 0) ''desc'' ''k'' (JObj []) (JObj [(''k'', JNum 1)]))"
    by (rule mp [OF conjunct1 [OF P] ab])
  note O = P [THEN conjunct2, THEN conjunct2, THEN conjunct2, THEN conjunct2, THEN conjunct2,
      THEN conjunct2, THEN conjunct1]
  have f: "parse_sortOrder [(''order'', ''DESC'')] = ''desc''"
    using O [of "[(''order'', ''DESC'')]"] d by (rule iffD2)
  have "parse_sortOrder [(''order'', ''down'')] \<noteq> ''desc''"
    using O [of "[(''order'', ''down'')]"] e by (simp only: not_False_eq_True)
  moreover have "parse_sortOrder [(''order'', ''down'')] = ''desc''
      \<or> parse_sortOrder [(''order'', ''down'')] = ''asc''"
    by (rule P [THEN conjunct2, THEN conjunct2, THEN conjunct2, THEN conjunct2,
          THEN conjunct2, THEN conjunct1])
  ultimately have g: "parse_sortOrder [(''order'', ''down'')] = ''asc''"
    by (elim disjE) simp_all
  from ab c f g show ?thesis
    by (intro conjI) (erule conjunct1 conjunct2 | assumption)+
qed

subsection \<open>The distinct races\<close>

lemma races_trailing_slash_set:
  "foldl races_step [] [JObj [(''appearance'', JObj [(''race'', JStr ''Human/'')])]] = [''Human/'']"
  by code_simp

lemma trailing_slash_tokens:
  "filter (\<lambda>p. p \<noteq> []) (map js_trim (js_split CHR ''/'' ''Human/'')) = [''Human'']"
  by code_simp

text \<open>
  C5 does not hold of the code. For a race with fewer than two parts the handler adds the
  whole text instead of the part: for the one record with race \<^verbatim>\<open>"Human/"\<close> the tokens are
  \<^verbatim>\<open>["Human"]\<close>, and the handler answers \<^verbatim>\<open>["Human/"]\<close>.
\<close>

theorem races_trailing_slash:
  "races_handler lc [JObj [(''appearance'', JObj [(''race'', JStr ''Human/'')])]] = [''Human/'']
   \<and> filter (\<lambda>p. p \<noteq> []) (map js_trim (js_split CHR ''/'' ''Human/'')) = [''Human'']"
proof
  show "races_handler lc [JObj [(''appearance'', JObj [(''race'', JStr ''Human/'')])]] = [''Human/'']"
    unfolding races_handler_def races_trailing_slash_set by (simp add: sort_by_def)
  show "filter (\<lambda>p. p \<noteq> []) (map js_trim (js_split CHR ''/'' ''Human/'')) = [''Human'']"
    by (rule trailing_slash_tokens)
qed

subsection \<open>Page and limit\<close>

lemma digits_val_snoc: "digits_val (s @ [c]) = 10 * digits_val s + digit_val c"
  by (simp add: digits_val_def)

lemma digit_val_0: "digit_val (CHR ''0'') = 0" by code_simp
lemma digit_val_1: "digit_val (CHR ''1'') = 1" by code_simp
lemma is_digit_0: "is_digit (CHR ''0'')" by code_simp
lemma is_digit_1: "is_digit (CHR ''1'')" by code_simp
lemma not_space_1: "\<not> is_space (CHR ''1'')" by code_simp

lemma digits_val_one_zeros: "digits_val (CHR ''1'' # replicate n (CHR ''0'')) = 10 ^ n"
proof (induction n)
  case 0
  show ?case by (simp add: digits_val_def digit_val_1)
next
  case (Suc n)
  have "CHR ''1'' # replicate (Suc n) (CHR ''0'') = (CHR ''1'' # replicate n (CHR ''0'')) @ [CHR ''0'']"
    by (simp add: replicate_append_same)
  then show ?case
    by (simp only: digits_val_snoc Suc digit_val_0) simp
qed

lemma parseInt_overflow: "parseInt (CHR ''1'' # replicate 309 (CHR ''0'')) = PInf"
proof -
  define S where "S = CHR ''1'' # replicate 309 (CHR ''0'')"
  have d: "dropWhile is_space S = S"
    by (simp add: S_def not_space_1)
  have h: "hd S = CHR ''1''" and ne: "S \<noteq> []"
    by (simp_all add: S_def)
  have t: "takeWhile is_digit S = S"
    by (simp add: S_def is_digit_0 is_digit_1)
  have v: "digits_val S = 10 ^ 309"
    unfolding S_def by (rule digits_val_one_zeros)
  have "(2::rat) ^ 1024 - 2 ^ 970 \<le> of_nat (10 ^ 309)"
    by simp
  then have r: "to_number_range (of_nat (digits_val S)) = PInf"
    unfolding v by (simp only: to_number_range_def if_True)
  have "parseInt S = PInf"
    by (simp add: parseInt_def Let_def d h ne t r)
  then show ?thesis
    by (simp only: S_def)
qed

lemma parse_limit_overflow:
  "parse_limit [(''limit'', CHR ''1'' # replicate 309 (CHR ''0''))] = PInf"
proof -
  have "first_of [param [(''limit'', CHR ''1'' # replicate 309 (CHR ''0''))] ''limit'',
          param [(''limit'', CHR ''1'' # replicate 309 (CHR ''0''))] ''_limit''] ''20''
        = CHR ''1'' # replicate 309 (CHR ''0'')"
    by (simp add: param_def)
  then show ?thesis
    by (simp add: parse_limit_def parseInt_overflow num_or_def num_max_def)
qed

lemma js_trim_Nil [simp]: "js_trim [] = []"
  by (simp add: js_trim_def)

lemma parseInt_1: "parseInt ''1'' = Fin 1"
proof -
  have "takeWhile is_digit ''1'' = ''1''" "dropWhile is_space ''1'' = ''1''" "digits_val ''1'' = 1"
    by code_simp+
  then show ?thesis
    by (simp add: parseInt_def Let_def to_number_range_small)
qed

text \<open>The defaults: an absent or unparsable page is 1, an absent or unparsable limit is 20.\<close>

lemma parseInt_20: "parseInt ''20'' = Fin 20"
proof -
  have "takeWhile is_digit ''20'' = ''20''" "dropWhile is_space ''20'' = ''20''"
    "digits_val ''20'' = 20"
    by code_simp+
  then show ?thesis
    by (simp add: parseInt_def Let_def to_number_range_small)
qed

lemma parse_page_absent:
  "param q ''page'' = None \<Longrightarrow> param q ''_page'' = None \<Longrightarrow> parse_page q = Fin 1"
  by (simp add: parse_page_def parseInt_1 num_or_def num_max_def)

lemma parse_page_unparsable:
  "parseInt (first_of [param q ''page'', param q ''_page''] ''1'') = NaN \<Longrightarrow> parse_page q = Fin 1"
  by (simp add: parse_page_def num_or_def num_max_def)

lemma parse_page_not_positive:
  "parseInt (first_of [param q ''page'', param q ''_page''] ''1'') = Fin r \<Longrightarrow> r \<le> 0 \<Longrightarrow>
   parse_page q = Fin 1"
  by (simp add: parse_page_def num_or_def num_max_def)

lemma parse_limit_absent:
  "param q ''limit'' = None \<Longrightarrow> param q ''_limit'' = None \<Longrightarrow> parse_limit q = Fin 20"
  by (simp add: parse_limit_def parseInt_20 num_or_def num_max_def)

lemma parse_limit_unparsable:
  "parseInt (first_of [param q ''limit'', param q ''_limit''] ''20'') = NaN \<Longrightarrow>
   parse_limit q = Fin 20"
  by (simp add: parse_limit_def num_or_def num_max_def)

lemma paginate_infinite_limit:
  "paginate (Fin 1) PInf list =
     Inr \<lparr> data = [], meta_total = length list, meta_page = Fin 1, meta_limit = PInf,
           meta_pages = Fin 1 \<rparr>"
  by (simp add: paginate_def Let_def of_nat_num_def num_ceil_def num_max_def num_min_def
      num_sub_def num_neg_def to_number_range_small slice_def slice_index_def)

text \<open>
  C9 does not hold of the code. A limit of 310 digits (a 1 and 309 zeros) is beyond the
  range of the doubles: \<^verbatim>\<open>parseInt\<close> gives \<^verbatim>\<open>Infinity\<close>, which passes \<^verbatim>\<open>|| 20\<close> and
  \<^verbatim>\<open>Math.max\<close>, so the limit is no integer; then \<^verbatim>\<open>start\<close> is \<^verbatim>\<open>0 * Infinity\<close>, that is NaN,
  and the page is empty for every collection.
\<close>

theorem limit_overflow:
  "parse_limit [(''limit'', CHR ''1'' # replicate 309 (CHR ''0''))] = PInf
   \<and> characters_handler lc [(''limit'', CHR ''1'' # replicate 309 (CHR ''0''))] coll =
       Inr \<lparr> data = [], meta_total = length coll, meta_page = Fin 1, meta_limit = PInf,
             meta_pages = Fin 1 \<rparr>"
proof -
  define q where "q = [(''limit'', CHR ''1'' # replicate 309 (CHR ''0''))]"
  have l: "parse_limit q = PInf"
    unfolding q_def by (rule parse_limit_overflow)
  have p: "parse_page q = Fin 1"
    by (simp add: q_def parse_page_def param_def parseInt_1 num_or_def num_max_def)
  have "parse_q q = []" "param q ''race'' = None" "filterKeys q = []" "parse_sortKey q = []"
    by (simp_all add: q_def parse_q_def param_def filterKeys_def excluded_def parse_sortKey_def)
  then have "filtered_list lc q coll = Inr coll"
    by (simp add: filtered_list_def search_stage_def race_filter_def field_filter_def
        sort_stage_def)
  then have "characters_handler lc q coll =
       Inr \<lparr> data = [], meta_total = length coll, meta_page = Fin 1, meta_limit = PInf,
             meta_pages = Fin 1 \<rparr>"
    by (simp add: characters_handler_def l p paginate_infinite_limit)
  with l show ?thesis
    by (simp only: q_def)
qed

subsection \<open>Projection\<close>

lemma split_id: "js_split CHR ''.'' ''id'' = [''id'']" by code_simp
lemma split_name: "js_split CHR ''.'' ''name'' = [''name'']" by code_simp
lemma split_images: "js_split CHR ''.'' ''images'' = [''images'']" by code_simp
lemma split_race: "js_split CHR ''.'' ''appearance.race'' = [''appearance'', ''race'']" by code_simp

lemma list_view_fields:
  "filter (\<lambda>s. s \<noteq> []) (map (\<lambda>s. js_trim (js_to_string s)) (filter truthy (elements list_view)))
     = [''id'', ''name'', ''images'', ''appearance.race'']"
  by code_simp

lemma list_view_no_wildcard:
  "list_view \<noteq> JStr ''*''" "isArray list_view" "JStr ''*'' \<notin> set (elements list_view)"
  by (simp_all add: list_view_def)

lemma update_absent: "map_of al k = None \<Longrightarrow> AList.update k v al = al @ [(k, v)]"
  by (induction al) (auto split: if_splits)

lemma lookup_update [simp]: "lookup (AList.update k v al) k = v"
  by (simp add: lookup_def update_conv')

lemma lookup_absent: "map_of al k = None \<Longrightarrow> lookup al k = JUndef"
  by (simp add: lookup_def)

lemma setByPath_id: "setByPath (JObj kvs) ''id'' v = Inr (JObj (AList.update ''id'' v kvs))"
  by (simp add: setByPath_def split_id)

lemma setByPath_name: "setByPath (JObj kvs) ''name'' v = Inr (JObj (AList.update ''name'' v kvs))"
  by (simp add: setByPath_def split_name)

lemma setByPath_images:
  "setByPath (JObj kvs) ''images'' v = Inr (JObj (AList.update ''images'' v kvs))"
  by (simp add: setByPath_def split_images)

lemma setByPath_race:
  "map_of kvs ''appearance'' = None \<Longrightarrow>
   setByPath (JObj kvs) ''appearance.race'' v
     = Inr (JObj (kvs @ [(''appearance'', JObj [(''race'', v)])]))"
  by (simp add: setByPath_def split_race lookup_absent is_nullish_def, simp add: update_absent)

lemma project_list_view:
  "project_fields c [''id'', ''name'', ''images'', ''appearance.race''] (JObj [])
     = Inr (JObj
         ((if getByPath c ''id'' \<noteq> JUndef then [(''id'', getByPath c ''id'')] else [])
          @ (if getByPath c ''name'' \<noteq> JUndef then [(''name'', getByPath c ''name'')] else [])
          @ (if getByPath c ''images'' \<noteq> JUndef then [(''images'', getByPath c ''images'')] else [])
          @ (if getByPath c ''appearance.race'' \<noteq> JUndef
             then [(''appearance'', JObj [(''race'', getByPath c ''appearance.race'')])] else [])))"
  by (simp add: Let_def setByPath_id setByPath_name setByPath_images setByPath_race)

lemma prepare_list_view:
  "truthy c \<Longrightarrow>
   prepareCharacter c list_view
     = Inr (JObj
         ((if getByPath c ''id'' \<noteq> JUndef then [(''id'', getByPath c ''id'')] else [])
          @ (if getByPath c ''name'' \<noteq> JUndef then [(''name'', getByPath c ''name'')] else [])
          @ (if getByPath c ''images'' \<noteq> JUndef then [(''images'', getByPath c ''images'')] else [])
          @ (if getByPath c ''appearance.race'' \<noteq> JUndef
             then [(''appearance'', JObj [(''race'', getByPath c ''appearance.race'')])] else [])))"
  unfolding prepareCharacter_def list_view_fields Let_def
  by (simp add: list_view_no_wildcard project_list_view del: project_fields.simps)

lemma prepare_falsy: "\<not> truthy c \<Longrightarrow> prepareCharacter c fs = Inr c"
  by (simp add: prepareCharacter_def)

lemma prepare_wildcard:
  "fs = JStr ''*'' \<or> (isArray fs \<and> JStr ''*'' \<in> set (elements fs)) \<Longrightarrow>
   prepareCharacter c fs = Inr c"
  by (auto simp: prepareCharacter_def)

lemma prepare_list_view_total: "\<exists>out. prepareCharacter c list_view = Inr out"
  by (cases "truthy c") (simp_all add: prepare_list_view prepare_falsy)

lemma getByPath_id: "getByPath (JObj kvs) ''id'' = lookup kvs ''id''"
  by (simp add: getByPath_def walk_def split_id is_nullish_def)

lemma getByPath_name: "getByPath (JObj kvs) ''name'' = lookup kvs ''name''"
  by (simp add: getByPath_def walk_def split_name is_nullish_def)

lemma getByPath_images: "getByPath (JObj kvs) ''images'' = lookup kvs ''images''"
  by (simp add: getByPath_def walk_def split_images is_nullish_def)

lemma getByPath_race:
  "getByPath (JObj kvs) ''appearance.race''
     = (if is_nullish (lookup kvs ''appearance'') then JUndef
        else js_get (lookup kvs ''appearance'') ''race'')"
  by (simp add: getByPath_def walk_def split_race is_nullish_def)

text \<open>
  C8: the projection of a record (a truthy value) with the field list of the list view
  is an object whose keys are among \<^verbatim>\<open>id\<close>, \<^verbatim>\<open>name\<close>, \<^verbatim>\<open>images\<close> and \<^verbatim>\<open>appearance\<close>, whose
  \<^verbatim>\<open>appearance\<close>, if any, holds the race and nothing else, and in which each of the four
  paths has the value it has in the record, a path being present exactly when its value
  in the record is not undefined. A falsy value is returned as it is. With \<^verbatim>\<open>'*'\<close>, or a
  field list that contains \<^verbatim>\<open>'*'\<close>, the record is returned unchanged.
\<close>

theorem list_view_projection:
  "(truthy c \<longrightarrow>
      (\<exists>kvs. prepareCharacter c list_view = Inr (JObj kvs)
         \<and> fst ` set kvs \<subseteq> {''id'', ''name'', ''images'', ''appearance''}
         \<and> (\<forall>v. (''appearance'', v) \<in> set kvs \<longrightarrow> v = JObj [(''race'', getByPath c ''appearance.race'')])
         \<and> (\<forall>p \<in> {''id'', ''name'', ''images''}.
               getByPath (JObj kvs) p = getByPath c p
               \<and> (p \<in> fst ` set kvs \<longleftrightarrow> getByPath c p \<noteq> JUndef))
         \<and> getByPath (JObj kvs) ''appearance.race'' = getByPath c ''appearance.race''
         \<and> (''appearance'' \<in> fst ` set kvs \<longleftrightarrow> getByPath c ''appearance.race'' \<noteq> JUndef)))
   \<and> (\<not> truthy c \<longrightarrow> prepareCharacter c fs = Inr c)
   \<and> prepareCharacter c (JStr ''*'') = Inr c
   \<and> (isArray fs \<and> JStr ''*'' \<in> set (elements fs) \<longrightarrow> prepareCharacter c fs = Inr c)"
proof (intro conjI impI)
  assume t: "truthy c"
  define kvs where "kvs =
     (if getByPath c ''id'' \<noteq> JUndef then [(''id'', getByPath c ''id'')] else [])
      @ (if getByPath c ''name'' \<noteq> JUndef then [(''name'', getByPath c ''name'')] else [])
      @ (if getByPath c ''images'' \<noteq> JUndef then [(''images'', getByPath c ''images'')] else [])
      @ (if getByPath c ''appearance.race'' \<noteq> JUndef
         then [(''appearance'', JObj [(''race'', getByPath c ''appearance.race'')])] else [])"
  have 1: "prepareCharacter c list_view = Inr (JObj kvs)"
    unfolding kvs_def by (rule prepare_list_view [OF t])
  have 2: "fst ` set kvs \<subseteq> {''id'', ''name'', ''images'', ''appearance''}"
    by (auto simp: kvs_def split: if_splits)
  have 3: "\<forall>v. (''appearance'', v) \<in> set kvs \<longrightarrow> v = JObj [(''race'', getByPath c ''appearance.race'')]"
    by (auto simp: kvs_def split: if_splits)
  have 4: "\<forall>p \<in> {''id'', ''name'', ''images''}.
               getByPath (JObj kvs) p = getByPath c p
               \<and> (p \<in> fst ` set kvs \<longleftrightarrow> getByPath c p \<noteq> JUndef)"
    by (auto simp: kvs_def getByPath_id getByPath_name getByPath_images lookup_def
        split: if_splits)
  have 5: "getByPath (JObj kvs) ''appearance.race'' = getByPath c ''appearance.race''"
    by (simp add: kvs_def getByPath_race lookup_def is_nullish_def)
  have 6: "''appearance'' \<in> fst ` set kvs \<longleftrightarrow> getByPath c ''appearance.race'' \<noteq> JUndef"
    by (auto simp: kvs_def split: if_splits)
  from 1 2 3 4 5 6 show "\<exists>kvs. prepareCharacter c list_view = Inr (JObj kvs)
         \<and> fst ` set kvs \<subseteq> {''id'', ''name'', ''images'', ''appearance''}
         \<and> (\<forall>v. (''appearance'', v) \<in> set kvs \<longrightarrow> v = JObj [(''race'', getByPath c ''appearance.race'')])
         \<and> (\<forall>p \<in> {''id'', ''name'', ''images''}.
               getByPath (JObj kvs) p = getByPath c p
               \<and> (p \<in> fst ` set kvs \<longleftrightarrow> getByPath c p \<noteq> JUndef))
         \<and> getByPath (JObj kvs) ''appearance.race'' = getByPath c ''appearance.race''
         \<and> (''appearance'' \<in> fst ` set kvs \<longleftrightarrow> getByPath c ''appearance.race'' \<noteq> JUndef)"
    by (intro exI [of _ kvs] conjI)
next
  assume "\<not> truthy c"
  then show "prepareCharacter c fs = Inr c"
    by (rule prepare_falsy)
next
  show "prepareCharacter c (JStr ''*'') = Inr c"
    by (simp add: prepare_wildcard)
next
  assume "isArray fs \<and> JStr ''*'' \<in> set (elements fs)"
  then show "prepareCharacter c fs = Inr c"
    by (simp add: prepare_wildcard)
qed

theorem list_view_projection_witness:
  "truthy (JObj [(''id'', JNum 7), (''powerstats'', JObj [(''power'', JNum 9)])])
   \<and> (\<exists>kvs. prepareCharacter (JObj [(''id'', JNum 7), (''powerstats'', JObj [(''power'', JNum 9)])])
               list_view = Inr (JObj kvs)
         \<and> fst ` set kvs \<subseteq> {''id'', ''name'', ''images'', ''appearance''})
   \<and> isArray (JArr [JStr ''id'', JStr ''*''] []) \<and> JStr ''*'' \<in> set (elements (JArr [JStr ''id'', JStr ''*''] []))
   \<and> prepareCharacter (JObj [(''id'', JNum 7), (''powerstats'', JObj [(''power'', JNum 9)])])
         (JArr [JStr ''id'', JStr ''*''] [])
       = Inr (JObj [(''id'', JNum 7), (''powerstats'', JObj [(''power'', JNum 9)])])"
proof -
  define c where "c = JObj [(''id'', JNum 7), (''powerstats'', JObj [(''power'', JNum 9)])]"
  define fs where "fs = JArr [JStr ''id'', JStr ''*''] []"
  note P = list_view_projection [of c fs]
  have t: "truthy c"
    by (simp add: c_def)
  from mp [OF conjunct1 [OF P] t] obtain kvs where
    "prepareCharacter c list_view = Inr (JObj kvs)"
    "fst ` set kvs \<subseteq> {''id'', ''name'', ''images'', ''appearance''}"
    by (elim exE conjE)
  then have e: "\<exists>kvs. prepareCharacter c list_view = Inr (JObj kvs)
         \<and> fst ` set kvs \<subseteq> {''id'', ''name'', ''images'', ''appearance''}"
    by (intro exI [of _ kvs] conjI)
  have w: "isArray fs \<and> JStr ''*'' \<in> set (elements fs)"
    by (simp add: fs_def)
  have r: "prepareCharacter c fs = Inr c"
    by (rule mp [OF P [THEN conjunct2, THEN conjunct2, THEN conjunct2] w])
  from t e w r show ?thesis
    unfolding c_def fs_def by (intro conjI) (erule conjunct1 conjunct2 | assumption)+
qed

subsection \<open>Writing and reading a path\<close>

lemma array_index_length: "array_index ''length'' = None"
  by code_simp

lemma array_length_JNum:
  assumes "0 \<le> n" "n < 2 ^ 32"
  shows "array_length (JNum n) = Some (nat n)"
proof -
  have "(of_int n :: rat) < of_int (2 ^ 32)"
    using assms(2) by (simp only: of_int_less_iff)
  then have "(of_int n :: rat) < 2 ^ 32"
    by simp
  with assms(1) show ?thesis
    by (simp add: array_length_def)
qed

lemma js_put_get:
  assumes "is_object node" and "\<not> (isArray node \<and> k = ''length'')"
  shows "\<exists>node'. js_put node k x = Inr node' \<and> is_object node' \<and> js_get node' k = x
           \<and> isArray node' = isArray node"
proof (cases node)
  case (JObj kvs)
  then show ?thesis
    by (simp add: lookup_def update_conv')
next
  case (JArr xs ps)
  show ?thesis
  proof (cases "array_index k")
    case None
    with JArr assms(2) show ?thesis
      by (simp add: lookup_def update_conv')
  next
    case (Some i)
    with JArr show ?thesis
      by (simp add: nth_append)
  qed
qed (use assms in simp_all)

lemma js_put_length:
  assumes "0 \<le> n" "n < 2 ^ 32"
  shows "\<exists>node'. js_put (JArr xs ps) ''length'' (JNum n) = Inr node' \<and> is_object node'
           \<and> js_get node' ''length'' = JNum n \<and> isArray node'"
  using assms by (simp add: array_index_length array_length_JNum)


lemma walk_Cons: "is_object node \<Longrightarrow> walk node (k # ks) = walk (js_get node k) ks"
  by (cases node) (simp_all add: walk_def is_nullish_def)

lemma walk_Nil [simp]: "walk node [] = node"
  by (simp add: walk_def)

lemma length_write_empty: "\<not> length_write (JObj []) (k # ks) v"
  by (cases ks) (simp_all add: lookup_def)

lemma set_keys_round_trip:
  "is_object node \<Longrightarrow> \<not> length_write node (k # ks) v \<Longrightarrow>
   \<exists>node'. set_keys node (k # ks) v = Inr node' \<and> is_object node' \<and> walk node' (k # ks) = v
      \<and> isArray node' = isArray node"
proof (induction ks arbitrary: node k)
  case Nil
  show ?case
  proof (cases "isArray node \<and> k = ''length''")
    case False
    from js_put_get [OF Nil(1) False, of v] show ?thesis
      by (auto simp: walk_Cons)
  next
    case True
    then obtain xs ps where n: "node = JArr xs ps"
      by (cases node) simp_all
    from True Nil(2) obtain m where v: "v = JNum m" "0 \<le> m" "m < 2 ^ 32"
      by (cases v) (auto simp: n)
    from True have k: "k = ''length''"
      by simp
    from js_put_length [OF v(2,3), of xs ps] obtain node' where
      p: "js_put (JArr xs ps) ''length'' (JNum m) = Inr node'" "is_object node'"
         "js_get node' ''length'' = JNum m" "isArray node'"
      by blast
    then show ?thesis
      by (simp add: n v(1) k walk_Cons del: js_put.simps)
  qed
next
  case (Cons k' ks)
  have obj: "\<not> is_nullish node"
    using Cons.prems(1) by (cases node) (simp_all add: is_nullish_def)
  show ?case
  proof (cases "is_object (js_get node k)")
    case True
    then have nl: "\<not> (isArray node \<and> k = ''length'')"
      by (cases node) (auto simp: array_index_length)
    from True Cons.prems(2) have "\<not> length_write (js_get node k) (k' # ks) v"
      by simp
    from Cons.IH [OF True this] obtain child where
      c: "set_keys (js_get node k) (k' # ks) v = Inr child" "is_object child"
         "walk child (k' # ks) = v"
      by blast
    from js_put_get [OF Cons.prems(1) nl, of child] obtain node' where
      n: "js_put node k child = Inr node'" "is_object node'" "js_get node' k = child"
         "isArray node' = isArray node"
      by blast
    from True obj c n show ?thesis
      by (simp add: walk_Cons)
  next
    case False
    with Cons.prems(2) have nl: "\<not> (isArray node \<and> k = ''length'')"
      by simp
    from js_put_get [OF Cons.prems(1) nl, of "JObj []"] obtain node1 where
      n1: "js_put node k (JObj []) = Inr node1" "is_object node1" "js_get node1 k = JObj []"
          "isArray node1 = isArray node"
      by blast
    from Cons.IH [of "JObj []" k', OF _ length_write_empty] obtain child where
      c: "set_keys (JObj []) (k' # ks) v = Inr child" "is_object child"
         "walk child (k' # ks) = v"
      by auto
    from nl n1(4) have nl1: "\<not> (isArray node1 \<and> k = ''length'')"
      by simp
    from js_put_get [OF n1(2) nl1, of child] obtain node' where
      n: "js_put node1 k child = Inr node'" "is_object node'" "js_get node' k = child"
         "isArray node' = isArray node1"
      by blast
    from False obj n1 c n show ?thesis
      by (simp add: walk_Cons)
  qed
qed

lemma js_split_not_Nil: "js_split c s \<noteq> []"
  by (induction s) (auto split: list.splits)

lemma split_a_length: "js_split CHR ''.'' ''a.length'' = [''a'', ''length'']"
  by code_simp

lemma decimal_literal_2: "decimal_literal ''2'' = Some 2"
  by code_simp

lemma js_trim_2: "js_trim ''2'' = ''2''"
  by code_simp

lemma string_to_number_2: "string_to_number ''2'' = Fin 2"
  by (simp add: string_to_number_def js_trim_2 unsigned_literal_def decimal_literal_2
      to_number_range_small)

lemma array_length_text_2: "array_length (JStr ''2'') = Some 2"
  by (simp add: array_length_def string_to_number_2)

text \<open>
  C10 as stated fails: in the target \<^verbatim>\<open>{a: [1, 2, 3]}\<close> the path \<^verbatim>\<open>a.length\<close> leads to the
  length of an array. Writing the text \<^verbatim>\<open>"2"\<close> there truncates the array, and the path
  reads back as the number 2.
\<close>

theorem setByPath_length_counterexample:
  "is_object (JObj [(''a'', JArr [JNum 1, JNum 2, JNum 3] [])])
   \<and> setByPath (JObj [(''a'', JArr [JNum 1, JNum 2, JNum 3] [])]) ''a.length'' (JStr ''2'')
       = Inr (JObj [(''a'', JArr [JNum 1, JNum 2] [])])
   \<and> getByPath (JObj [(''a'', JArr [JNum 1, JNum 2] [])]) ''a.length'' = JNum 2"
proof (intro conjI)
  show "setByPath (JObj [(''a'', JArr [JNum 1, JNum 2, JNum 3] [])]) ''a.length'' (JStr ''2'')
       = Inr (JObj [(''a'', JArr [JNum 1, JNum 2] [])])"
    by (simp add: setByPath_def split_a_length lookup_def is_nullish_def array_index_length
        array_length_text_2)
  show "getByPath (JObj [(''a'', JArr [JNum 1, JNum 2] [])]) ''a.length'' = JNum 2"
    by (simp add: getByPath_def walk_def split_a_length lookup_def is_nullish_def
        array_index_length)
qed simp

text \<open>
  C10, amended: for every target object, every path that is not empty and has no key
  \<^verbatim>\<open>__proto__\<close>, and every value, unless the write assigns the length of an array on its way
  (the empty object at a step of the walk, or at the last key a value that is not an
  integer number from 0 to \<open>2 ^ 32 - 1\<close>), \<^verbatim>\<open>setByPath\<close> returns and \<^verbatim>\<open>getByPath\<close> then reads
  exactly that value at the same path.

  The key \<^verbatim>\<open>__proto__\<close> is left out because it names the accessor that every object inherits
  for its prototype link: an assignment to it does not create a property (a primitive
  value is ignored, an object becomes the prototype) and a read of it returns the
  prototype. That accessor is no own property, so \<open>js_get\<close> and \<open>js_put\<close> do not
  represent it, and nothing is claimed for such a path. Every other inherited member is
  a function: the walk replaces it by a fresh own object, and the last assignment
  shadows it by an own property, as for a key that is absent.
\<close>

theorem setByPath_round_trip:
  assumes "is_object target" and "path \<noteq> []"
    and "''__proto__'' \<notin> set (js_split CHR ''.'' path)"
    and "\<not> length_write target (js_split CHR ''.'' path) v"
  shows "\<exists>target'. setByPath target path v = Inr target' \<and> getByPath target' path = v"
proof -
  obtain k ks where s: "js_split CHR ''.'' path = k # ks"
    using js_split_not_Nil [of "CHR ''.''" path] by (cases "js_split CHR ''.'' path") auto
  from set_keys_round_trip [OF assms(1), of k ks v] assms(4) obtain target' where
    "set_keys target (k # ks) v = Inr target'" "walk target' (k # ks) = v"
    unfolding s by blast
  with assms(2) show ?thesis
    by (simp add: setByPath_def getByPath_def s)
qed

theorem setByPath_round_trip_witness:
  "is_object (JObj [(''name'', JStr ''x'')]) \<and> ''appearance.race'' \<noteq> []
   \<and> ''__proto__'' \<notin> set (js_split CHR ''.'' ''appearance.race'')
   \<and> \<not> length_write (JObj [(''name'', JStr ''x'')]) (js_split CHR ''.'' ''appearance.race'')
         (JStr ''Human'')
   \<and> (\<exists>target'. setByPath (JObj [(''name'', JStr ''x'')]) ''appearance.race'' (JStr ''Human'')
          = Inr target'
        \<and> getByPath target' ''appearance.race'' = JStr ''Human'')"
proof -
  have a: "is_object (JObj [(''name'', JStr ''x'')])" and b: "''appearance.race'' \<noteq> []"
    by simp_all
  have c: "\<not> length_write (JObj [(''name'', JStr ''x'')])
      (js_split CHR ''.'' ''appearance.race'') (JStr ''Human'')"
    by code_simp
  have d: "''__proto__'' \<notin> set (js_split CHR ''.'' ''appearance.race'')"
    by (simp add: split_race)
  from a b d c setByPath_round_trip [OF a b d c] show ?thesis
    by (intro conjI)
qed

subsection \<open>Stability of the sort\<close>



lemma set_insert_by [simp]: "set (insert_by c x ys) = insert x (set ys)"
  by (induction ys) auto

lemma length_insert_by [simp]: "length (insert_by c x ys) = Suc (length ys)"
  by (induction ys) simp_all

lemma set_sort_by [simp]: "set (sort_by c xs) = set xs"
  by (induction xs) (simp_all add: sort_by_def)

lemma length_sort_by [simp]: "length (sort_by c xs) = length xs"
  by (induction xs) (simp_all add: sort_by_def)









subsection \<open>Pagination\<close>

lemma to_number_range_of_nat:
  "to_number_range (of_nat n) = PInf
   \<or> (to_number_range (of_nat n) = Fin (of_nat n) \<and> (of_nat n :: rat) < 2 ^ 1024 - 2 ^ 970)"
proof -
  have "\<not> (of_nat n :: rat) \<le> - (2 ^ 1024 - 2 ^ 970)"
  proof -
    have "- (2 ^ 1024 - 2 ^ 970) < (0::rat)" by simp
    moreover have "(0::rat) \<le> of_nat n" by simp
    ultimately show ?thesis by linarith
  qed
  then show ?thesis
    by (simp add: to_number_range_def)
qed

lemma parseInt_shape:
  "parseInt s = NaN
   \<or> (\<exists>n. parseInt s = to_number_range (of_nat n) \<or> parseInt s = num_neg (to_number_range (of_nat n)))"
  unfolding parseInt_def Let_def by (simp only: split: if_split) blast

text \<open>What \<^verbatim>\<open>Math.max(1, parseInt(s, 10) || d)\<close> can be, for a default \<open>d\<close> from 1 on.\<close>

lemma guarded_parse_values:
  assumes "1 \<le> d" and "(of_nat d :: rat) < 2 ^ 1024 - 2 ^ 970"
  shows "num_max (Fin 1) (num_or (parseInt s) (Fin (of_nat d))) = PInf
     \<or> (\<exists>n. 1 \<le> n \<and> (of_nat n :: rat) < 2 ^ 1024 - 2 ^ 970
           \<and> num_max (Fin 1) (num_or (parseInt s) (Fin (of_nat d))) = Fin (of_nat n))"
proof -
  have one: "(of_nat 1 :: rat) < 2 ^ 1024 - 2 ^ 970"
    by simp
  have dflt: "num_max (Fin 1) (Fin (of_nat d)) = Fin (of_nat d)"
    using assms(1) by (simp add: num_max_def)
  from parseInt_shape [of s] consider
      (nan) "parseInt s = NaN"
    | (pos) n where "parseInt s = to_number_range (of_nat n)"
    | (neg) n where "parseInt s = num_neg (to_number_range (of_nat n))"
    by blast
  then show ?thesis
  proof cases
    case nan
    with assms dflt show ?thesis
      by (auto simp: num_or_def)
  next
    case (pos n)
    from to_number_range_of_nat [of n] show ?thesis
    proof
      assume "to_number_range (of_nat n) = PInf"
      with pos show ?thesis
        by (simp add: num_or_def num_max_def)
    next
      assume f: "to_number_range (of_nat n) = Fin (of_nat n) \<and> (of_nat n :: rat) < 2 ^ 1024 - 2 ^ 970"
      show ?thesis
      proof (cases "n = 0")
        case True
        with pos f assms dflt show ?thesis
          by (auto simp: num_or_def)
      next
        case False
        then have "num_max (Fin 1) (Fin (of_nat n)) = Fin (of_nat n)"
          by (simp add: num_max_def)
        with False pos f show ?thesis
          by (intro disjI2 exI [of _ n]) (simp add: num_or_def)
      qed
    qed
  next
    case (neg n)
    from to_number_range_of_nat [of n] show ?thesis
    proof
      assume "to_number_range (of_nat n) = PInf"
      with neg have "num_max (Fin 1) (num_or (parseInt s) (Fin (of_nat d))) = Fin (of_nat 1)"
        by (simp add: num_or_def num_max_def num_neg_def)
      with one show ?thesis
        by (intro disjI2 exI [of _ 1]) simp
    next
      assume f: "to_number_range (of_nat n) = Fin (of_nat n) \<and> (of_nat n :: rat) < 2 ^ 1024 - 2 ^ 970"
      show ?thesis
      proof (cases "n = 0")
        case True
        with neg f assms dflt show ?thesis
          by (auto simp: num_or_def num_neg_def)
      next
        case False
        then have "num_max (Fin 1) (Fin (- of_nat n)) = Fin (of_nat 1)"
          by (simp add: num_max_def)
        with False neg f one show ?thesis
          by (intro disjI2 exI [of _ 1]) (simp add: num_or_def num_neg_def)
      qed
    qed
  qed
qed

lemma parse_page_values:
  "parse_page q = PInf
   \<or> (\<exists>n. 1 \<le> n \<and> (of_nat n :: rat) < 2 ^ 1024 - 2 ^ 970 \<and> parse_page q = of_nat_num n)"
  using guarded_parse_values [of 1 "first_of [param q ''page'', param q ''_page''] ''1''"]
  by (simp add: parse_page_def of_nat_num_def)

lemma parse_limit_values:
  "parse_limit q = PInf
   \<or> (\<exists>n. 1 \<le> n \<and> (of_nat n :: rat) < 2 ^ 1024 - 2 ^ 970 \<and> parse_limit q = of_nat_num n)"
  using guarded_parse_values [of 20 "first_of [param q ''limit'', param q ''_limit''] ''20''"]
  by (simp add: parse_limit_def of_nat_num_def)

lemma of_nat_num_inject [simp]: "of_nat_num m = of_nat_num n \<longleftrightarrow> m = n"
  by (simp add: of_nat_num_def)


lemma num_max_Fin [simp]: "num_max (Fin a) (Fin b) = Fin (max a b)"
  by (simp add: num_max_def max_def)

lemma num_min_Fin [simp]: "num_min (Fin a) (Fin b) = Fin (min a b)"
  by (simp add: num_min_def min_def)

lemma slice_index_of_nat: "slice_index len (Fin (of_nat n)) = min n len"
  by (simp add: slice_index_def)

lemma slice_nat:
  "slice (Fin (of_nat s)) (Fin (of_nat e)) xs = take (min e (length xs) - s) (drop s xs)"
proof (cases "s \<le> length xs")
  case True
  then show ?thesis
    by (simp add: slice_def slice_index_of_nat min_absorb1)
next
  case False
  then show ?thesis
    by (simp add: slice_def slice_index_of_nat)
qed

lemma take_drop_upto:
  assumes "m \<le> length xs"
  shows "take (m - s) (drop s xs) = map (\<lambda>i. xs ! i) [s..<m]"
proof (rule nth_equalityI)
  show "length (take (m - s) (drop s xs)) = length (map (\<lambda>i. xs ! i) [s..<m])"
    using assms by simp
next
  fix i
  assume "i < length (take (m - s) (drop s xs))"
  then have i: "i < m - s"
    by simp
  then have "s + i < m"
    by simp
  with assms i show "take (m - s) (drop s xs) ! i = map (\<lambda>i. xs ! i) [s..<m] ! i"
    by simp
qed

lemma take_drop_positions:
  "take (min e (length xs) - s) (drop s xs) = map (\<lambda>i. xs ! i) [s..<min e (length xs)]"
  by (rule take_drop_upto) simp

lemma ceiling_bounds:
  assumes "1 \<le> l"
  shows "(nat \<lceil>(of_nat t :: rat) / of_nat l\<rceil> - 1) * l \<le> t"
    and "t \<le> nat \<lceil>(of_nat t :: rat) / of_nat l\<rceil> * l"
    and "0 < t \<Longrightarrow> (nat \<lceil>(of_nat t :: rat) / of_nat l\<rceil> - 1) * l < t"
    and "0 < t \<Longrightarrow> 1 \<le> nat \<lceil>(of_nat t :: rat) / of_nat l\<rceil>"
    and "nat \<lceil>(of_nat t :: rat) / of_nat l\<rceil> \<le> t"
proof -
  define x where "x = (of_nat t :: rat) / of_nat l"
  define c where "c = nat \<lceil>x\<rceil>"
  have lpos: "(0::rat) < of_nat l"
    using assms by simp
  have x0: "0 \<le> x"
    by (simp add: x_def)
  then have c0: "0 \<le> \<lceil>x\<rceil>"
    by simp
  then have cc: "(of_nat c :: rat) = of_int \<lceil>x\<rceil>"
    by (simp add: c_def)
  have up: "x \<le> of_nat c"
    unfolding cc by (rule le_of_int_ceiling)
  have lo: "of_nat c - 1 < x"
    unfolding cc using ceiling_correct [of x] by simp
  have xl: "x * of_nat l = of_nat t"
    using lpos by (simp add: x_def)
  from up have "x * of_nat l \<le> of_nat c * of_nat l"
    using lpos by (simp add: mult_right_mono)
  then have "(of_nat t :: rat) \<le> of_nat (c * l)"
    by (simp add: xl)
  then show 2: "t \<le> nat \<lceil>(of_nat t :: rat) / of_nat l\<rceil> * l"
    unfolding c_def [symmetric] x_def [symmetric] c_def [symmetric] by (simp only: of_nat_le_iff)
  from lo have "(of_nat c - 1) * of_nat l < x * of_nat l"
    using lpos by (simp add: mult_strict_right_mono)
  then have lt: "(of_nat c - 1) * (of_nat l :: rat) < of_nat t"
    by (simp add: xl)
  have 3: "(c - 1) * l < t" if "0 < t"
  proof (cases "c = 0")
    case True
    with that show ?thesis by simp
  next
    case False
    then have "(of_nat (c - 1) :: rat) = of_nat c - 1"
      by (simp add: of_nat_diff)
    with lt have "(of_nat ((c - 1) * l) :: rat) < of_nat t"
      by simp
    then show ?thesis
      by (simp only: of_nat_less_iff)
  qed
  then show "0 < t \<Longrightarrow> (nat \<lceil>(of_nat t :: rat) / of_nat l\<rceil> - 1) * l < t"
    by (simp add: c_def x_def)
  show "(nat \<lceil>(of_nat t :: rat) / of_nat l\<rceil> - 1) * l \<le> t"
    using 3 by (cases "0 < t") (simp_all add: c_def x_def less_imp_le)
  show "0 < t \<Longrightarrow> 1 \<le> nat \<lceil>(of_nat t :: rat) / of_nat l\<rceil>"
    using 2 by (cases "nat \<lceil>(of_nat t :: rat) / of_nat l\<rceil>") simp_all
  have "x \<le> of_nat t"
  proof -
    have "(of_nat t :: rat) / of_nat l \<le> of_nat t / 1"
      using assms by (intro divide_left_mono) simp_all
    then show ?thesis by (simp add: x_def)
  qed
  then have "\<lceil>x\<rceil> \<le> int t"
    by (simp add: ceiling_le_iff)
  then show "nat \<lceil>(of_nat t :: rat) / of_nat l\<rceil> \<le> t"
    by (simp add: x_def)
qed

lemma to_number_range_in_range:
  "(of_nat n :: rat) < 2 ^ 1024 - 2 ^ 970 \<Longrightarrow> to_number_range (of_nat n) = Fin (of_nat n)"
  using to_number_range_of_nat [of n] by (auto simp: to_number_range_def)

lemma to_number_range_length:
  assumes "n < 2 ^ 33"
  shows "to_number_range (of_nat n) = Fin (of_nat n)"
proof -
  have "(of_nat n :: rat) < of_nat (2 ^ 33)"
    using assms by (simp only: of_nat_less_iff)
  then have "\<bar>of_nat n :: rat\<bar> < 2 ^ 64"
    by simp
  then show ?thesis
    by (rule to_number_range_small)
qed

lemma quotient_small:
  fixes t l :: nat
  assumes l: "1 \<le> l" and tl: "t < 2 ^ 32"
  shows "\<bar>(of_nat t :: rat) / of_nat l\<bar> < 2 ^ 64"
proof -
  have x0: "(0::rat) \<le> of_nat t / of_nat l"
    by simp
  have a: "(of_nat t :: rat) / of_nat l \<le> of_nat t / 1"
    using l by (intro divide_left_mono) simp_all
  have "(of_nat t :: rat) < of_nat (2 ^ 32)"
    using tl by (simp only: of_nat_less_iff)
  then have b: "(of_nat t :: rat) < 2 ^ 64"
    by simp
  from a b have "(of_nat t :: rat) / of_nat l < 2 ^ 64"
    by simp
  with x0 show ?thesis
    by (simp only: abs_of_nonneg)
qed

lemma num_div_lengths:
  assumes l: "1 \<le> l" and tl: "t < 2 ^ 32"
  shows "num_div (of_nat_num t) (of_nat_num l) = Fin (of_nat t / of_nat l)"
proof -
  have "(of_nat l :: rat) \<noteq> 0"
    using l by simp
  then have "num_div (of_nat_num t) (of_nat_num l) = to_number_range (of_nat t / of_nat l)"
    by (simp add: of_nat_num_def)
  also have "\<dots> = Fin (of_nat t / of_nat l)"
    by (rule to_number_range_small) (rule quotient_small [OF l tl])
  finally show ?thesis .
qed


lemma num_ceil_quotient: "num_ceil (Fin (of_nat t / of_nat l)) = Fin (of_nat (nat \<lceil>(of_nat t :: rat) / of_nat l\<rceil>))"
proof -
  have "(0::rat) \<le> of_nat t / of_nat l"
    by simp
  then have "- 1 < (of_nat t :: rat) / of_nat l"
    by linarith
  then have "0 \<le> \<lceil>(of_nat t :: rat) / of_nat l\<rceil>"
    by (simp only: zero_le_ceiling)
  then show ?thesis
    by (simp add: num_ceil_def)
qed

lemma num_max_one: "num_max (Fin 1) (Fin (of_nat c)) = of_nat_num (max 1 c)"
  by (simp add: of_nat_num_def)

lemma num_min_of_nat: "num_min (of_nat_num p) (of_nat_num n) = of_nat_num (min p n)"
  by (simp add: of_nat_num_def)

lemma num_sub_one:
  assumes "1 \<le> cp" and "cp < 2 ^ 33"
  shows "num_sub (of_nat_num cp) (Fin 1) = Fin (of_nat (cp - 1))"
proof -
  have "cp - 1 < 2 ^ 33"
    using assms(2) by simp
  then have r: "to_number_range (of_nat (cp - 1)) = Fin (of_nat (cp - 1))"
    by (rule to_number_range_length)
  have e: "(of_nat cp :: rat) + - 1 = of_nat (cp - 1)"
    using assms(1) by (simp add: of_nat_diff)
  have "num_sub (of_nat_num cp) (Fin 1) = to_number_range (of_nat cp + - 1)"
    by (simp add: num_sub_def num_neg_def of_nat_num_def)
  then show ?thesis
    by (simp only: e r)
qed

lemma num_mul_of_nat:
  assumes "a * l < 2 ^ 33"
  shows "num_mul (Fin (of_nat a)) (of_nat_num l) = Fin (of_nat (a * l))"
proof -
  have "to_number_range (of_nat (a * l)) = Fin (of_nat (a * l))"
    using assms by (rule to_number_range_length)
  moreover have "num_mul (Fin (of_nat a)) (of_nat_num l) = to_number_range (of_nat (a * l))"
    by (simp add: of_nat_num_def)
  ultimately show ?thesis
    by (simp only:)
qed

lemma num_add_of_nat:
  assumes "(of_nat (s + l) :: rat) < 2 ^ 1024 - 2 ^ 970"
  shows "num_add (Fin (of_nat s)) (of_nat_num l) = Fin (of_nat (s + l))"
proof -
  have "to_number_range (of_nat (s + l)) = Fin (of_nat (s + l))"
    using assms by (rule to_number_range_in_range)
  moreover have "num_add (Fin (of_nat s)) (of_nat_num l) = to_number_range (of_nat (s + l))"
    by (simp add: of_nat_num_def)
  ultimately show ?thesis
    by (simp only:)
qed

lemma range_33: "n < 2 ^ 33 \<Longrightarrow> (of_nat n :: rat) < 2 ^ 1024 - 2 ^ 970"
proof -
  assume "n < 2 ^ 33"
  then have "(of_nat n :: rat) < of_nat (2 ^ 33)"
    by (simp only: of_nat_less_iff)
  then have "(of_nat n :: rat) < 2 ^ 33"
    by simp
  moreover have "(2::rat) ^ 33 < 2 ^ 1024 - 2 ^ 970"
    by simp
  ultimately show ?thesis
    by (rule less_trans)
qed

lemma paginate_finite:
  assumes p: "1 \<le> p" and l: "1 \<le> l" and lr: "(of_nat l :: rat) < 2 ^ 1024 - 2 ^ 970"
    and len: "length list < 2 ^ 32"
  defines "pages \<equiv> max 1 (nat \<lceil>(of_nat (length list) :: rat) / of_nat l\<rceil>)"
  defines "cp \<equiv> min p pages"
  shows "paginate (of_nat_num p) (of_nat_num l) list =
     (case map_throwing (\<lambda>c. prepareCharacter c list_view)
             (map (\<lambda>i. list ! i) [(cp - 1) * l..<min (cp * l) (length list)]) of
        Inl e \<Rightarrow> Inl e
      | Inr payload \<Rightarrow>
          Inr \<lparr> data = payload, meta_total = length list, meta_page = of_nat_num cp,
                meta_limit = of_nat_num l, meta_pages = of_nat_num pages \<rparr>)"
    and "1 \<le> cp" and "cp \<le> pages" and "(cp - 1) * l \<le> length list"
    and "list \<noteq> [] \<Longrightarrow> (cp - 1) * l < length list"
proof -
  define t where "t = length list"
  define c where "c = nat \<lceil>(of_nat t :: rat) / of_nat l\<rceil>"
  define s where "s = (cp - 1) * l"
  note cb = ceiling_bounds [OF l, of t, folded c_def]
  have pages: "pages = max 1 c"
    by (simp add: pages_def c_def t_def)
  show cp1: "1 \<le> cp" and cpp: "cp \<le> pages"
    using p by (simp_all add: cp_def pages)
  have ct: "c \<le> t"
    by (rule cb(5))
  have tl: "t < 2 ^ 32"
    using len by (simp add: t_def)
  have s_le: "s \<le> t" and s_lt: "0 < t \<Longrightarrow> s < t"
  proof -
    have "s \<le> t \<and> (0 < t \<longrightarrow> s < t)"
    proof (cases "c \<le> 1")
      case True
      then have "cp = 1"
        using cp1 cpp by (simp add: pages)
      then show ?thesis
        by (simp add: s_def)
    next
      case False
      then have "cp - 1 \<le> c - 1"
        using cpp by (simp add: pages)
      then have a: "s \<le> (c - 1) * l"
        unfolding s_def by (rule mult_le_mono1)
      from a cb(1) have "s \<le> t"
        by (rule le_trans)
      moreover have "s < t" if "0 < t"
        using a cb(3) [OF that] by (rule le_less_trans)
      ultimately show ?thesis
        by simp
    qed
    then show "s \<le> t" and "0 < t \<Longrightarrow> s < t"
      by simp_all
  qed
  show "(cp - 1) * l \<le> length list"
    using s_le by (simp only: s_def t_def)
  show "list \<noteq> [] \<Longrightarrow> (cp - 1) * l < length list"
    using s_lt by (simp add: s_def t_def)
  have d: "num_div (of_nat_num t) (of_nat_num l) = Fin (of_nat t / of_nat l)"
    by (rule num_div_lengths [OF l tl])
  have ce: "num_ceil (Fin (of_nat t / of_nat l)) = Fin (of_nat c)"
    unfolding c_def by (rule num_ceil_quotient)
  have pg: "num_max (Fin 1) (Fin (of_nat c)) = of_nat_num pages"
    unfolding pages by (rule num_max_one)
  have cur: "num_min (of_nat_num p) (of_nat_num pages) = of_nat_num cp"
    unfolding cp_def by (rule num_min_of_nat)
  have "cp < 2 ^ 33"
    using cpp ct tl by (simp add: pages)
  then have sub: "num_sub (of_nat_num cp) (Fin 1) = Fin (of_nat (cp - 1))"
    by (rule num_sub_one [OF cp1])
  have s33: "s < 2 ^ 33"
    using s_le tl by simp
  then have mul: "num_mul (Fin (of_nat (cp - 1))) (of_nat_num l) = Fin (of_nat s)"
    unfolding s_def by (rule num_mul_of_nat)
  have "(of_nat (s + l) :: rat) < 2 ^ 1024 - 2 ^ 970"
  proof (cases "s = 0")
    case True
    with lr show ?thesis
      by (simp only: add_0)
  next
    case False
    then have "1 \<le> cp - 1"
      by (cases "cp - 1") (simp_all add: s_def)
    then have "1 * l \<le> (cp - 1) * l"
      by (rule mult_le_mono1)
    then have "l \<le> s"
      by (simp add: s_def)
    with s_le tl have "s + l < 2 ^ 33"
      by simp
    then show ?thesis
      by (rule range_33)
  qed
  then have add: "num_add (Fin (of_nat s)) (of_nat_num l) = Fin (of_nat (s + l))"
    by (rule num_add_of_nat)
  have e: "s + l = cp * l"
    using cp1 by (cases cp) (simp_all add: s_def)
  have sl: "slice (Fin (of_nat s)) (Fin (of_nat (s + l))) list
      = map (\<lambda>i. list ! i) [s..<min (cp * l) (length list)]"
    unfolding e by (simp only: slice_nat take_drop_positions)
  show "paginate (of_nat_num p) (of_nat_num l) list =
     (case map_throwing (\<lambda>c. prepareCharacter c list_view)
             (map (\<lambda>i. list ! i) [(cp - 1) * l..<min (cp * l) (length list)]) of
        Inl e \<Rightarrow> Inl e
      | Inr payload \<Rightarrow>
          Inr \<lparr> data = payload, meta_total = length list, meta_page = of_nat_num cp,
                meta_limit = of_nat_num l, meta_pages = of_nat_num pages \<rparr>)"
    unfolding paginate_def Let_def t_def [symmetric] d ce pg cur sub mul add sl
    unfolding s_def t_def by (rule refl)
qed

lemma map_throwing_total:
  assumes "\<And>x. \<exists>y. f x = Inr y"
  shows "\<exists>ys. map_throwing f xs = Inr ys \<and> map Inr ys = map f xs"
proof (induction xs)
  case Nil
  show ?case by simp
next
  case (Cons x xs)
  from assms [of x] obtain y where "f x = Inr y"
    by blast
  moreover from Cons obtain ys where "map_throwing f xs = Inr ys" "map Inr ys = map f xs"
    by blast
  ultimately show ?case
    by simp
qed

lemma parse_page_positive: "parse_page q = of_nat_num p \<Longrightarrow> 1 \<le> p"
  using parse_page_values [of q] by (auto simp: of_nat_num_def)

lemma parse_limit_positive:
  "parse_limit q = of_nat_num l \<Longrightarrow> 1 \<le> l \<and> (of_nat l :: rat) < 2 ^ 1024 - 2 ^ 970"
  using parse_limit_values [of q] by (auto simp: of_nat_num_def)

text \<open>
  C1: let the query be answered without exception up to line 241, with the list \<open>list\<close>
  after search, filters and sort, and let the parsed page and limit be the positive
  integers \<open>p\<close> and \<open>l\<close> (the length of a list is below \<open>2 ^ 32\<close>). Then the handler
  answers; \<^verbatim>\<open>total\<close> is the length of the list, \<^verbatim>\<open>pages\<close> is the maximum of 1 and the ceiling
  of total / limit, \<^verbatim>\<open>page\<close> is the minimum of \<open>p\<close> and \<^verbatim>\<open>pages\<close> and lies between 1 and
  \<^verbatim>\<open>pages\<close>, and \<^verbatim>\<open>data\<close> holds, in order, the list-view projections of the records at the
  positions from (page - 1) * limit up to, but not including, page * limit, as far as the
  list goes. A page beyond the last one is thus answered with the last page, without an
  error, and with records whenever the list has any.
\<close>

theorem pagination:
  assumes fl: "filtered_list lc q coll = Inr list"
    and pg: "parse_page q = of_nat_num p" and lm: "parse_limit q = of_nat_num l"
    and len: "length list < 2 ^ 32"
  shows "let pages = max 1 (nat \<lceil>(of_nat (length list) :: rat) / of_nat l\<rceil>);
             resolved = min p pages
         in \<exists>r. characters_handler lc q coll = Inr r
              \<and> meta_total r = length list \<and> meta_limit r = of_nat_num l
              \<and> meta_pages r = of_nat_num pages \<and> meta_page r = of_nat_num resolved
              \<and> 1 \<le> resolved \<and> resolved \<le> pages
              \<and> map Inr (data r)
                  = map (\<lambda>i. prepareCharacter (list ! i) list_view)
                      [(resolved - 1) * l..<min (resolved * l) (length list)]
              \<and> (list \<noteq> [] \<longrightarrow> data r \<noteq> [])"
proof -
  define pages where "pages = max 1 (nat \<lceil>(of_nat (length list) :: rat) / of_nat l\<rceil>)"
  define cp where "cp = min p pages"
  note p = parse_page_positive [OF pg]
  note l = parse_limit_positive [OF lm]
  note pf = paginate_finite [OF p conjunct1 [OF l] conjunct2 [OF l] len,
      folded pages_def, folded cp_def]
  from map_throwing_total [of "\<lambda>c. prepareCharacter c list_view", OF prepare_list_view_total]
  obtain payload where
    m: "map_throwing (\<lambda>c. prepareCharacter c list_view)
          (map (\<lambda>i. list ! i) [(cp - 1) * l..<min (cp * l) (length list)]) = Inr payload"
    and d: "map Inr payload
          = map (\<lambda>c. prepareCharacter c list_view)
              (map (\<lambda>i. list ! i) [(cp - 1) * l..<min (cp * l) (length list)])"
    by blast
  define r where "r = \<lparr> data = payload, meta_total = length list, meta_page = of_nat_num cp,
                meta_limit = of_nat_num l, meta_pages = of_nat_num pages \<rparr>"
  have "characters_handler lc q coll = paginate (of_nat_num p) (of_nat_num l) list"
    by (simp add: characters_handler_def fl pg lm)
  also have "\<dots> = Inr r"
    unfolding pf(1) m r_def by simp
  finally have h: "characters_handler lc q coll = Inr r" .
  have dd: "map Inr (data r)
      = map (\<lambda>i. prepareCharacter (list ! i) list_view)
          [(cp - 1) * l..<min (cp * l) (length list)]"
    using d by (simp add: r_def comp_def)
  have ne: "data r \<noteq> []" if "list \<noteq> []"
  proof -
    from pf(5) [OF that] have a: "(cp - 1) * l < length list" .
    have b: "(cp - 1) * l < cp * l"
      using pf(2) conjunct1 [OF l] by (cases cp) simp_all
    from b a have "(cp - 1) * l < min (cp * l) (length list)"
      by (simp only: min_less_iff_conj simp_thms)
    then have "[(cp - 1) * l..<min (cp * l) (length list)] \<noteq> []"
      by (auto simp only: upt_eq_Nil_conv)
    then have "map (\<lambda>i. prepareCharacter (list ! i) list_view)
          [(cp - 1) * l..<min (cp * l) (length list)] \<noteq> []"
      by (simp only: map_is_Nil_conv simp_thms)
    with dd show ?thesis
      by auto
  qed
  have "\<exists>r. characters_handler lc q coll = Inr r
      \<and> meta_total r = length list \<and> meta_limit r = of_nat_num l
      \<and> meta_pages r = of_nat_num pages \<and> meta_page r = of_nat_num cp
      \<and> 1 \<le> cp \<and> cp \<le> pages
      \<and> map Inr (data r)
          = map (\<lambda>i. prepareCharacter (list ! i) list_view)
              [(cp - 1) * l..<min (cp * l) (length list)]
      \<and> (list \<noteq> [] \<longrightarrow> data r \<noteq> [])"
    using h dd ne pf(2,3) by (intro exI [of _ r]) (simp add: r_def)
  then show ?thesis
    unfolding Let_def pages_def cp_def .
qed


lemma parseInt_99: "parseInt ''99'' = Fin 99"
proof -
  have "takeWhile is_digit ''99'' = ''99''" "dropWhile is_space ''99'' = ''99''"
    "digits_val ''99'' = 99"
    by code_simp+
  then show ?thesis
    by (simp add: parseInt_def Let_def to_number_range_small)
qed

lemma parseInt_2: "parseInt ''2'' = Fin 2"
proof -
  have "takeWhile is_digit ''2'' = ''2''" "dropWhile is_space ''2'' = ''2''"
    "digits_val ''2'' = 2"
    by code_simp+
  then show ?thesis
    by (simp add: parseInt_def Let_def to_number_range_small)
qed

theorem pagination_witness:
  "filtered_list (\<lambda>s t. 0) [(''page'', ''99''), (''limit'', ''2'')]
      [JObj [(''id'', JNum 1)], JObj [(''id'', JNum 2)], JObj [(''id'', JNum 3)]]
     = Inr [JObj [(''id'', JNum 1)], JObj [(''id'', JNum 2)], JObj [(''id'', JNum 3)]]
   \<and> parse_page [(''page'', ''99''), (''limit'', ''2'')] = of_nat_num 99
   \<and> parse_limit [(''page'', ''99''), (''limit'', ''2'')] = of_nat_num 2
   \<and> (\<exists>r. characters_handler (\<lambda>s t. 0) [(''page'', ''99''), (''limit'', ''2'')]
            [JObj [(''id'', JNum 1)], JObj [(''id'', JNum 2)], JObj [(''id'', JNum 3)]] = Inr r
          \<and> meta_total r = 3 \<and> meta_pages r = of_nat_num 2 \<and> meta_page r = of_nat_num 2
          \<and> map Inr (data r) = [prepareCharacter (JObj [(''id'', JNum 3)]) list_view])"
proof -
  define q where "q = [(''page'', ''99''), (''limit'', ''2'')]"
  define coll where "coll = [JObj [(''id'', JNum 1)], JObj [(''id'', JNum 2)], JObj [(''id'', JNum 3)]]"
  have pg: "parse_page q = of_nat_num 99"
    by (simp add: q_def parse_page_def param_def parseInt_99 num_or_def of_nat_num_def)
  have lm: "parse_limit q = of_nat_num 2"
    by (simp add: q_def parse_limit_def param_def parseInt_2 num_or_def of_nat_num_def)
  have "parse_q q = []" "param q ''race'' = None" "filterKeys q = []" "parse_sortKey q = []"
    by (simp_all add: q_def parse_q_def param_def filterKeys_def excluded_def parse_sortKey_def)
  then have fl: "filtered_list (\<lambda>s t. 0) q coll = Inr coll"
    by (simp add: filtered_list_def search_stage_def race_filter_def field_filter_def
        sort_stage_def)
  have len: "length coll < 2 ^ 32"
    by (simp add: coll_def)
  have "\<lceil>(3::rat) / 2\<rceil> = 2"
    by (rule ceiling_unique) simp_all
  then have pages: "max 1 (nat \<lceil>(of_nat (length coll) :: rat) / of_nat 2\<rceil>) = 2"
    by (simp add: coll_def)
  from pagination [OF fl pg lm len] obtain r where
    r: "characters_handler (\<lambda>s t. 0) q coll = Inr r" "meta_total r = length coll"
      "meta_pages r = of_nat_num 2" "meta_page r = of_nat_num (min 99 2)"
      "map Inr (data r) = map (\<lambda>i. prepareCharacter (coll ! i) list_view)
          [(min 99 2 - 1) * 2..<min (min 99 2 * 2) (length coll)]"
    unfolding Let_def pages by (elim exE conjE)
  have "[(min 99 2 - 1) * 2..<min (min 99 2 * 2) (length coll)] = [2::nat]"
    by (simp add: coll_def upt_rec)
  with r(5) have d: "map Inr (data r) = [prepareCharacter (JObj [(''id'', JNum 3)]) list_view]"
    by (simp add: coll_def)
  from r(1-4) d have "\<exists>r. characters_handler (\<lambda>s t. 0) q coll = Inr r
          \<and> meta_total r = 3 \<and> meta_pages r = of_nat_num 2 \<and> meta_page r = of_nat_num 2
          \<and> map Inr (data r) = [prepareCharacter (JObj [(''id'', JNum 3)]) list_view]"
    by (intro exI [of _ r]) (simp add: coll_def)
  with fl pg lm show ?thesis
    unfolding q_def coll_def by (intro conjI)
qed

end
